theory Spec2Isabelle
  imports Complex_Main "HOL-Library.Word" "HOL-Library.Log_Nat"
begin

section \<open>The ledger contract: PrivateTaxCalculator.sol\<close>

text \<open>
  Solidity's value types are machine words: \<open>address\<close> has 160 bits, \<open>uint256\<close> and
  \<open>bytes32\<close> have 256 bits, \<open>bytes\<close> is a byte string. Arithmetic of Solidity 0.8 is
  checked: an increment that would overflow reverts the call.
\<close>

type_synonym address = "160 word"
type_synonym uint256 = "256 word"
type_synonym bytes32 = "256 word"
type_synonym bytes = "8 word list"

record TaxRecord =
  incomeHash :: bytes32
  deductionsHash :: bytes32
  taxOwedHash :: bytes32
  calculated :: bool
  submissionTime :: uint256
  calculationTime :: uint256
  lastAccessTime :: uint256

text \<open>The storage of the contract: its state variables, the two mappings as total
  functions (a Solidity mapping holds the zero value at every key never written).\<close>

record storage =
  owner :: address
  deploymentTime :: uint256
  totalTaxpayers :: uint256
  taxRecords :: "address \<Rightarrow> TaxRecord"
  hasSubmitted :: "address \<Rightarrow> bool"

text \<open>What a call sees of its transaction: \<open>msg.sender\<close>, \<open>block.timestamp\<close> and
  \<open>msg.value\<close>.\<close>

record env =
  sender :: address
  timestamp :: uint256
  msg_value :: uint256

text \<open>
  A failed \<open>require\<close> reverts with its message; a checked arithmetic overflow
  reverts with \<open>Panic(0x11)\<close>; a call that carries value to a function that is not
  \<open>payable\<close> reverts, without a message, before the modifiers and the body run.
  Of the functions of the contract only \<open>submitTaxInfo\<close> is payable.
\<close>

datatype error = Revert string | Panic | NotPayable

definition VERSION :: uint256 where
  "VERSION = 1"

text \<open>The zero value of the struct, which \<open>delete\<close> writes and which an unwritten
  mapping slot holds.\<close>

definition zeroRecord :: TaxRecord where
  "zeroRecord = \<lparr>incomeHash = 0, deductionsHash = 0, taxOwedHash = 0, calculated = False,
     submissionTime = 0, calculationTime = 0, lastAccessTime = 0\<rparr>"

text \<open>The storage a successful deployment leaves.\<close>

definition constructor :: "env \<Rightarrow> storage" where
  "constructor e = \<lparr>owner = sender e, deploymentTime = timestamp e, totalTaxpayers = 0,
     taxRecords = (\<lambda>_. zeroRecord), hasSubmitted = (\<lambda>_. False)\<rparr>"

text \<open>\<open>totalTaxpayers++\<close> under checked arithmetic.\<close>

definition checked_inc :: "uint256 \<Rightarrow> error + uint256" where
  "checked_inc n = (if n = - 1 then Inl Panic else Inr (n + 1))"

text \<open>
  \<open>submitTaxInfo\<close>. The two \<open>bytes32[2]\<close> arguments are pairs, of which the function
  stores the first component. The event it emits is not part of the storage and is left
  out, here and below.
\<close>

definition submitTaxInfo ::
  "storage \<Rightarrow> env \<Rightarrow> bytes32 \<times> bytes32 \<Rightarrow> bytes \<Rightarrow> bytes32 \<times> bytes32 \<Rightarrow> bytes \<Rightarrow> error + storage" where
  "submitTaxInfo s e encryptedIncome incomeProof encryptedDeductions deductionsProof =
     (if hasSubmitted s (sender e)
        then Inl (Revert ''Tax information already submitted for this address'')
      else if \<not> length incomeProof > 0 then Inl (Revert ''Income proof required'')
      else if \<not> length deductionsProof > 0 then Inl (Revert ''Deductions proof required'')
      else
        let s1 = s\<lparr>taxRecords := (taxRecords s)(sender e :=
                   \<lparr>incomeHash = fst encryptedIncome,
                    deductionsHash = fst encryptedDeductions,
                    taxOwedHash = 0,
                    calculated = False,
                    submissionTime = timestamp e,
                    calculationTime = 0,
                    lastAccessTime = timestamp e\<rparr>)\<rparr>;
            s2 = s1\<lparr>hasSubmitted := (hasSubmitted s1)(sender e := True)\<rparr>
        in (case checked_inc (totalTaxpayers s2) of
              Inl err \<Rightarrow> Inl err
            | Inr n \<Rightarrow> Inr (s2\<lparr>totalTaxpayers := n\<rparr>)))"

text \<open>
  \<open>calculateTax\<close>. The hash the function stores is
  \<open>keccak256(abi.encodePacked(incomeHash, deductionsHash, block.timestamp, "tax_calculation"))\<close>;
  keccak256 is a primitive of the virtual machine, so the model takes that hash, as a
  function of the three values packed, as the parameter \<open>H\<close>.
\<close>

definition calculateTax ::
  "(bytes32 \<Rightarrow> bytes32 \<Rightarrow> uint256 \<Rightarrow> bytes32) \<Rightarrow> storage \<Rightarrow> env \<Rightarrow> error + storage" where
  "calculateTax H s e =
     (if msg_value e > 0 then Inl NotPayable
      else if \<not> hasSubmitted s (sender e) then Inl (Revert ''No tax information submitted'')
      else if calculated (taxRecords s (sender e)) then Inl (Revert ''Tax already calculated'')
      else
        let record = taxRecords s (sender e);
            calculatedTaxHash = H (incomeHash record) (deductionsHash record) (timestamp e);
            record = record\<lparr>taxOwedHash := calculatedTaxHash\<rparr>;
            record = record\<lparr>calculated := True\<rparr>;
            record = record\<lparr>calculationTime := timestamp e\<rparr>;
            record = record\<lparr>lastAccessTime := timestamp e\<rparr>
        in Inr (s\<lparr>taxRecords := (taxRecords s)(sender e := record)\<rparr>))"

text \<open>\<open>getTaxOwed\<close>, a view behind the modifier \<open>onlyTaxpayer\<close>.\<close>

definition getTaxOwed :: "storage \<Rightarrow> env \<Rightarrow> error + bytes32 \<times> bytes32" where
  "getTaxOwed s e =
     (if msg_value e > 0 then Inl NotPayable
      else if \<not> hasSubmitted s (sender e) then Inl (Revert ''No tax record found'')
      else if \<not> calculated (taxRecords s (sender e)) then Inl (Revert ''Tax not yet calculated'')
      else Inr (taxOwedHash (taxRecords s (sender e)), 0))"

text \<open>The views without a guard, as the value they return to a call without value.\<close>

definition isCalculated :: "storage \<Rightarrow> address \<Rightarrow> bool" where
  "isCalculated s taxpayer = calculated (taxRecords s taxpayer)"

definition getSubmissionTime :: "storage \<Rightarrow> address \<Rightarrow> uint256" where
  "getSubmissionTime s taxpayer = submissionTime (taxRecords s taxpayer)"

definition getCalculationTime :: "storage \<Rightarrow> address \<Rightarrow> uint256" where
  "getCalculationTime s taxpayer = calculationTime (taxRecords s taxpayer)"

definition getContractStats :: "storage \<Rightarrow> uint256 \<times> uint256 \<times> address \<times> uint256" where
  "getContractStats s = (totalTaxpayers s, deploymentTime s, owner s, VERSION)"

text \<open>\<open>clearTaxRecord\<close>, behind the modifier \<open>onlyTaxpayer\<close>.\<close>

definition clearTaxRecord :: "storage \<Rightarrow> env \<Rightarrow> error + storage" where
  "clearTaxRecord s e =
     (if msg_value e > 0 then Inl NotPayable
      else if \<not> hasSubmitted s (sender e) then Inl (Revert ''No tax record found'')
      else
        let s1 = s\<lparr>taxRecords := (taxRecords s)(sender e := zeroRecord)\<rparr>
        in Inr (s1\<lparr>hasSubmitted := (hasSubmitted s1)(sender e := False)\<rparr>))"

text \<open>\<open>emergencyPause\<close>, behind the modifier \<open>onlyOwner\<close>; its body is empty.\<close>

definition emergencyPause :: "storage \<Rightarrow> env \<Rightarrow> error + storage" where
  "emergencyPause s e =
     (if msg_value e > 0 then Inl NotPayable
      else if \<not> sender e = owner s then Inl (Revert ''Only owner can perform this action'')
      else Inr s)"

definition hasValidTaxRecord :: "storage \<Rightarrow> address \<Rightarrow> bool" where
  "hasValidTaxRecord s taxpayer =
     (hasSubmitted s taxpayer \<and> submissionTime (taxRecords s taxpayer) > 0)"

definition getLastAccessTime :: "storage \<Rightarrow> env \<Rightarrow> address \<Rightarrow> error + uint256" where
  "getLastAccessTime s e taxpayer =
     (if msg_value e > 0 then Inl NotPayable
      else if \<not> hasSubmitted s taxpayer then Inl (Revert ''No tax record found'')
      else Inr (lastAccessTime (taxRecords s taxpayer)))"

text \<open>
  The calls that are sent as transactions (the functions that are not views), and a
  transaction: a call that reverts leaves the storage as it was, as the virtual machine
  rolls every write back.
\<close>

datatype call =
    SubmitTaxInfo "bytes32 \<times> bytes32" bytes "bytes32 \<times> bytes32" bytes
  | CalculateTax
  | ClearTaxRecord
  | EmergencyPause

fun exec :: "(bytes32 \<Rightarrow> bytes32 \<Rightarrow> uint256 \<Rightarrow> bytes32) \<Rightarrow> storage \<Rightarrow> env \<times> call \<Rightarrow> error + storage" where
  "exec H s (e, SubmitTaxInfo ei ip ed dp) = submitTaxInfo s e ei ip ed dp"
| "exec H s (e, CalculateTax) = calculateTax H s e"
| "exec H s (e, ClearTaxRecord) = clearTaxRecord s e"
| "exec H s (e, EmergencyPause) = emergencyPause s e"

definition transact :: "(bytes32 \<Rightarrow> bytes32 \<Rightarrow> uint256 \<Rightarrow> bytes32) \<Rightarrow> storage \<Rightarrow> env \<times> call \<Rightarrow> storage" where
  "transact H s c = (case exec H s c of Inl _ \<Rightarrow> s | Inr s' \<Rightarrow> s')"

text \<open>The ledger after a sequence of transactions, from the storage the constructor
  leaves.\<close>

definition run :: "(bytes32 \<Rightarrow> bytes32 \<Rightarrow> uint256 \<Rightarrow> bytes32) \<Rightarrow> env \<Rightarrow> (env \<times> call) list \<Rightarrow> storage" where
  "run H e0 cs = foldl (transact H) (constructor e0) cs"


subsection \<open>A concrete ledger\<close>

text \<open>Callers, a hash function and a submission, on which the theorems below are
  evaluated.\<close>

definition deployer :: env where
  "deployer = \<lparr>sender = 1, timestamp = 1600000000, msg_value = 0\<rparr>"

definition alice :: env where
  "alice = \<lparr>sender = 7, timestamp = 1700000000, msg_value = 0\<rparr>"

definition alice_later :: env where
  "alice_later = \<lparr>sender = 7, timestamp = 1700000600, msg_value = 0\<rparr>"

definition bob :: env where
  "bob = \<lparr>sender = 9, timestamp = 1700000300, msg_value = 0\<rparr>"

text \<open>The same caller sending one wei with the call, and a call in a block whose
  timestamp is zero.\<close>

definition alice_paying :: env where
  "alice_paying = \<lparr>sender = 7, timestamp = 1700000600, msg_value = 1\<rparr>"


definition H1 :: "bytes32 \<Rightarrow> bytes32 \<Rightarrow> uint256 \<Rightarrow> bytes32" where
  "H1 a b t = (if a + b + t = 0 then 1 else a + b + t)"

definition submit1 :: call where
  "submit1 = SubmitTaxInfo (11, 0) [1] (12, 0) [2]"

section \<open>The tax engine: app.js\<close>

subsection \<open>JavaScript numbers\<close>

text \<open>
  A JavaScript Number is an IEEE 754 binary64 value. A finite one is the rational it
  denotes; the two zeros are identified, since no operation used below tells them apart
  (\<open>Math.max(0, -0)\<close> is \<open>0\<close>). Every arithmetic operation computes the exact result
  and rounds it to the nearest representable value, ties to the even significand.

  \<open>expo x\<close> is the binary exponent of \<open>x\<close>, the integer \<open>e\<close> with
  \<open>2^e \<le> |x| < 2^(e+1)\<close>; \<open>ulp x\<close> is the spacing of the representable values around
  \<open>x\<close>: 53 significant bits, and the fixed spacing \<open>2^-1074\<close> of the subnormal range
  below \<open>2^-1022\<close>.
\<close>

definition expo :: "rat \<Rightarrow> int" where
  "expo x = (if 1 \<le> \<bar>x\<bar> then bitlen \<lfloor>\<bar>x\<bar>\<rfloor> - 1 else - bitlen (\<lceil>1 / \<bar>x\<bar>\<rceil> - 1))"

definition round_half_even :: "rat \<Rightarrow> int" where
  "round_half_even y =
     (let f = \<lfloor>y\<rfloor>; d = y - of_int f
      in if d < 1 / 2 then f else if 1 / 2 < d then f + 1 else if even f then f else f + 1)"

definition ulp :: "rat \<Rightarrow> rat" where
  "ulp x = 2 powi (max (expo x) (- 1022) - 52)"

definition rnd :: "rat \<Rightarrow> rat" where
  "rnd x = (if x = 0 then 0 else of_int (round_half_even (x / ulp x)) * ulp x)"

text \<open>The largest finite value, \<open>Number.MAX_VALUE\<close>; a result that rounds beyond it is
  an infinity.\<close>

definition max_double :: rat where
  "max_double = (2 ^ 53 - 1) * 2 ^ 971"

datatype number = Fin rat | PInf | NInf | NaN

definition round_result :: "rat \<Rightarrow> number" where
  "round_result x =
     (let r = rnd x in if max_double < r then PInf else if r < - max_double then NInf else Fin r)"

text \<open>A numeric literal of the source denotes the Number nearest to its decimal value.\<close>

definition lit :: "rat \<Rightarrow> number" where
  "lit q = round_result q"

fun num_neg :: "number \<Rightarrow> number" where
  "num_neg (Fin a) = Fin (- a)"
| "num_neg PInf = NInf"
| "num_neg NInf = PInf"
| "num_neg NaN = NaN"

text \<open>The operators \<open>+\<close>, \<open>-\<close>, \<open>*\<close> and \<open><=\<close> on Numbers.\<close>

fun num_add :: "number \<Rightarrow> number \<Rightarrow> number" where
  "num_add (Fin a) (Fin b) = round_result (a + b)"
| "num_add NaN _ = NaN"
| "num_add _ NaN = NaN"
| "num_add PInf NInf = NaN"
| "num_add NInf PInf = NaN"
| "num_add PInf _ = PInf"
| "num_add _ PInf = PInf"
| "num_add NInf _ = NInf"
| "num_add _ NInf = NInf"

definition num_sub :: "number \<Rightarrow> number \<Rightarrow> number" where
  "num_sub a b = num_add a (num_neg b)"

fun num_mul :: "number \<Rightarrow> number \<Rightarrow> number" where
  "num_mul (Fin a) (Fin b) = round_result (a * b)"
| "num_mul NaN _ = NaN"
| "num_mul _ NaN = NaN"
| "num_mul (Fin a) PInf = (if a = 0 then NaN else if 0 < a then PInf else NInf)"
| "num_mul (Fin a) NInf = (if a = 0 then NaN else if 0 < a then NInf else PInf)"
| "num_mul PInf (Fin b) = (if b = 0 then NaN else if 0 < b then PInf else NInf)"
| "num_mul NInf (Fin b) = (if b = 0 then NaN else if 0 < b then NInf else PInf)"
| "num_mul PInf PInf = PInf"
| "num_mul NInf NInf = PInf"
| "num_mul PInf NInf = NInf"
| "num_mul NInf PInf = NInf"

fun num_le :: "number \<Rightarrow> number \<Rightarrow> bool" where
  "num_le (Fin a) (Fin b) = (a \<le> b)"
| "num_le NaN _ = False"
| "num_le _ NaN = False"
| "num_le NInf _ = True"
| "num_le _ PInf = True"
| "num_le PInf _ = False"
| "num_le _ NInf = False"

text \<open>\<open>Math.max\<close> of two arguments, and \<open>Math.round\<close>: the nearest integer, a half
  going up (\<open>round x\<close> is \<open>\<lfloor>x + 1/2\<rfloor>\<close>).\<close>

definition Math_max :: "number \<Rightarrow> number \<Rightarrow> number" where
  "Math_max a b = (if a = NaN \<or> b = NaN then NaN else if num_le a b then b else a)"

fun Math_round :: "number \<Rightarrow> number" where
  "Math_round (Fin x) = Fin (of_int (round x))"
| "Math_round v = v"

subsection \<open>The tax functions\<close>

definition calculateEstimatedTax :: "number \<Rightarrow> number \<Rightarrow> number" where
  "calculateEstimatedTax income deductions =
     (let taxableIncome = Math_max (lit 0) (num_sub income deductions);
          tax = (if num_le taxableIncome (lit 50000) then
                   num_mul taxableIncome (lit (10 / 100))
                 else if num_le taxableIncome (lit 100000) then
                   num_add (lit 5000) (num_mul (num_sub taxableIncome (lit 50000)) (lit (20 / 100)))
                 else
                   num_add (lit 15000) (num_mul (num_sub taxableIncome (lit 100000)) (lit (30 / 100))))
      in Math_round tax)"

definition calculateProgressiveTax :: "number \<Rightarrow> number" where
  "calculateProgressiveTax taxableIncome =
     (let tax = (if num_le taxableIncome (lit 50000) then
                   num_mul taxableIncome (lit (10 / 100))
                 else if num_le taxableIncome (lit 100000) then
                   num_add (num_mul (lit 50000) (lit (10 / 100)))
                     (num_mul (num_sub taxableIncome (lit 50000)) (lit (20 / 100)))
                 else
                   num_add (num_add (num_mul (lit 50000) (lit (10 / 100)))
                                    (num_mul (lit 50000) (lit (20 / 100))))
                     (num_mul (num_sub taxableIncome (lit 100000)) (lit (30 / 100))))
      in Math_round tax)"

definition getMarginalTaxRate :: "number \<Rightarrow> string" where
  "getMarginalTaxRate taxableIncome =
     (if num_le taxableIncome (lit 50000) then ''10''
      else if num_le taxableIncome (lit 100000) then ''20''
      else ''30'')"

text \<open>
  The tax owed as the specification words it, in exact arithmetic on integers:
  the taxable income is \<open>max(0, income - deductions)\<close>, the three brackets are taxed at
  10, 20 and 30 percent, and the result is rounded to the nearest integer, a half going
  up.
\<close>

definition spec_taxOwed :: "int \<Rightarrow> int \<Rightarrow> int" where
  "spec_taxOwed income deductions =
     (let taxableIncome = max 0 (income - deductions);
          tax :: rat =
            (if taxableIncome \<le> 50000 then of_int taxableIncome * (10 / 100)
             else if taxableIncome \<le> 100000 then
               50000 * (10 / 100) + (of_int taxableIncome - 50000) * (20 / 100)
             else
               50000 * (10 / 100) + 50000 * (20 / 100) + (of_int taxableIncome - 100000) * (30 / 100))
      in \<lfloor>tax + 1 / 2\<rfloor>)"

text \<open>
  The presets of the constructor. An integer literal below \<open>2^53\<close> denotes itself
  (lemma \<open>rnd_of_int\<close>), so the table holds the values directly.
\<close>

record scenario =
  income :: number
  deductions :: number
  description :: string
  expectedTax :: number
  gasEstimate :: string

datatype scenarioType = low | medium | high | custom

fun scenarios :: "scenarioType \<Rightarrow> scenario" where
  "scenarios low = \<lparr>income = Fin 30000, deductions = Fin 5000,
     description = ''Low Income Scenario'', expectedTax = Fin 2500, gasEstimate = ''150000''\<rparr>"
| "scenarios medium = \<lparr>income = Fin 75000, deductions = Fin 12000,
     description = ''Medium Income Scenario'', expectedTax = Fin 10800, gasEstimate = ''180000''\<rparr>"
| "scenarios high = \<lparr>income = Fin 150000, deductions = Fin 25000,
     description = ''High Income Scenario'', expectedTax = Fin 29000, gasEstimate = ''200000''\<rparr>"
| "scenarios custom = \<lparr>income = Fin 0, deductions = Fin 0,
     description = ''Custom Amount'', expectedTax = Fin 0, gasEstimate = ''200000''\<rparr>"

subsection \<open>The computation on finite values\<close>

text \<open>
  On finite non-negative arguments no operation of the tax functions overflows (lemma
  \<open>calculateEstimatedTax_fin\<close>), and the computation is the following one on
  rationals: \<open>taxable_fin\<close> is the taxable income, \<open>tax_fin\<close> the tax before
  \<open>Math.round\<close>. \<open>big\<close> is \<open>2^1023\<close>, a bound used for the absence of overflow.
\<close>

definition taxable_fin :: "rat \<Rightarrow> rat \<Rightarrow> rat" where
  "taxable_fin i d = max 0 (rnd (i - d))"

definition tax_fin :: "rat \<Rightarrow> rat" where
  "tax_fin t =
     (if t \<le> 50000 then rnd (t * rnd (10 / 100))
      else if t \<le> 100000 then rnd (5000 + rnd (rnd (t - 50000) * rnd (20 / 100)))
      else rnd (15000 + rnd (rnd (t - 100000) * rnd (30 / 100))))"

definition big :: rat where
  "big = 2 ^ 1023"

section \<open>Properties of the ledger contract\<close>

lemmas op_defs = submitTaxInfo_def calculateTax_def clearTaxRecord_def emergencyPause_def
  checked_inc_def zeroRecord_def Let_def

lemma transact_calculated_hasSubmitted:
  assumes "\<And>a. calculated (taxRecords s a) \<Longrightarrow> hasSubmitted s a"
    and "calculated (taxRecords (transact H s c) a)"
  shows "hasSubmitted (transact H s c) a"
proof (cases c)
  case (Pair e k)
  with assms show ?thesis
    by (cases k) (auto simp: transact_def op_defs split: if_splits sum.splits)
qed

lemma run_snoc: "run H dep (cs @ [c]) = transact H (run H dep cs) c"
  by (simp add: run_def)

lemma run_calculated_hasSubmitted:
  "calculated (taxRecords (run H dep cs) a) \<Longrightarrow> hasSubmitted (run H dep cs) a"
proof (induction cs arbitrary: a rule: rev_induct)
  case Nil
  then show ?case by (simp add: run_def constructor_def zeroRecord_def)
next
  case (snoc c cs)
  show ?case
    unfolding run_snoc
    by (rule transact_calculated_hasSubmitted[OF snoc.IH]) (use snoc.prems in \<open>simp_all add: run_snoc\<close>)
qed



lemma transact_total_mono: "totalTaxpayers s \<le> totalTaxpayers (transact H s c)"
proof (cases c)
  case (Pair e k)
  have inc: "n \<noteq> - 1 \<Longrightarrow> n \<le> n + 1" for n :: uint256
    by (meson inc_less_eq_triv_imp nle_le)
  from Pair show ?thesis
    by (cases k) (auto simp: transact_def op_defs inc split: if_splits sum.splits)
qed

lemma unat_checked_inc: "n \<noteq> - 1 \<Longrightarrow> unat (n + 1) = unat n + 1" for n :: uint256
  by (metis inc_less_eq_self_iff_eq nle_le unat_plus_simple unsigned_1)

lemma transact_total_le_Suc: "unat (totalTaxpayers (transact H s c)) \<le> Suc (unat (totalTaxpayers s))"
proof (cases c)
  case (Pair e k)
  then show ?thesis
    by (cases k) (auto simp: transact_def op_defs unat_checked_inc split: if_splits sum.splits)
qed

lemma run_total_le_length: "unat (totalTaxpayers (run H dep cs)) \<le> length cs"
proof (induction cs rule: rev_induct)
  case Nil
  show ?case by (simp add: run_def constructor_def)
next
  case (snoc c cs)
  have "unat (totalTaxpayers (run H dep (cs @ [c]))) \<le> Suc (unat (totalTaxpayers (run H dep cs)))"
    unfolding run_snoc by (rule transact_total_le_Suc)
  with snoc show ?case by simp
qed

lemma run_total_not_max:
  assumes "length cs < 2 ^ 256 - 1"
  shows "totalTaxpayers (run H dep cs) \<noteq> - 1"
proof
  assume "totalTaxpayers (run H dep cs) = - 1"
  then have "unat (totalTaxpayers (run H dep cs)) = 2 ^ 256 - 1"
    by (simp add: unsigned_minus_1_eq_mask mask_eq_exp_minus_1)
  with run_total_le_length[of H dep cs] assms show False by simp
qed

lemma run_append: "run H dep (cs @ cs') = foldl (transact H) (run H dep cs) cs'"
  by (simp add: run_def)

lemma foldl_transact_total_mono:
  "totalTaxpayers s \<le> totalTaxpayers (foldl (transact H) s cs)"
proof (induction cs arbitrary: s)
  case Nil
  show ?case by simp
next
  case (Cons c cs)
  have "totalTaxpayers s \<le> totalTaxpayers (transact H s c)"
    by (rule transact_total_mono)
  also have "\<dots> \<le> totalTaxpayers (foldl (transact H) (transact H s c) cs)"
    by (rule Cons.IH)
  finally show ?case by simp
qed

lemmas ex_defs = alice_def alice_later_def deployer_def submit1_def run_def transact_def constructor_def

text \<open>
  Claim C2, with the guard of a function that is not payable. In every ledger state (so
  in every reachable one) and for every caller, \<open>calculateTax\<close> fails exactly when the
  call carries value, the caller has not submitted, or the caller's record is already
  calculated; \<open>getTaxOwed\<close> fails exactly when the call carries value, the caller has
  no record, or the record is not calculated; otherwise each call succeeds (a result
  that is not a failure is a success). For a call without value these are the two
  conditions of the claim.
\<close>

theorem calculateTax_getTaxOwed_failure:
  "(isl (calculateTax H s e) \<longleftrightarrow>
      msg_value e \<noteq> 0 \<or> \<not> hasSubmitted s (sender e) \<or> calculated (taxRecords s (sender e)))
   \<and> (isl (getTaxOwed s e) \<longleftrightarrow>
      msg_value e \<noteq> 0 \<or> \<not> hasSubmitted s (sender e) \<or> \<not> calculated (taxRecords s (sender e)))
   \<and> (msg_value e = 0 \<longrightarrow>
        (isl (calculateTax H s e) \<longleftrightarrow>
           \<not> hasSubmitted s (sender e) \<or> calculated (taxRecords s (sender e)))
      \<and> (isl (getTaxOwed s e) \<longleftrightarrow>
           \<not> hasSubmitted s (sender e) \<or> \<not> calculated (taxRecords s (sender e))))"
  by (simp add: calculateTax_def getTaxOwed_def Let_def word_greater_zero_iff)

theorem calculateTax_getTaxOwed_failure_witness:
  "msg_value alice = 0
   \<and> isl (calculateTax H1 (run H1 deployer []) alice)
   \<and> isl (getTaxOwed (run H1 deployer []) alice)
   \<and> \<not> isl (calculateTax H1 (run H1 deployer [(alice, submit1)]) alice)
   \<and> isl (getTaxOwed (run H1 deployer [(alice, submit1)]) alice)
   \<and> isl (calculateTax H1 (run H1 deployer [(alice, submit1), (alice, CalculateTax)]) alice)
   \<and> \<not> isl (getTaxOwed (run H1 deployer [(alice, submit1), (alice, CalculateTax)]) alice)
   \<and> isl (calculateTax H1 (run H1 deployer [(alice, submit1)]) alice_paying)"
  using calculateTax_getTaxOwed_failure[of H1 "run H1 deployer []" alice]
    calculateTax_getTaxOwed_failure[of H1 "run H1 deployer [(alice, submit1)]" alice]
    calculateTax_getTaxOwed_failure[of H1 "run H1 deployer [(alice, submit1), (alice, CalculateTax)]" alice]
    calculateTax_getTaxOwed_failure[of H1 "run H1 deployer [(alice, submit1)]" alice_paying]
  by (simp add: ex_defs alice_paying_def op_defs)

text \<open>
  As the claim states it, without the value of the call, C2 fails: after her submission
  the caller has a record that is not calculated, and her \<open>calculateTax\<close> sent with one
  wei reverts; after the calculation her \<open>getTaxOwed\<close> sent with one wei reverts.
\<close>

theorem calculateTax_getTaxOwed_failure_counterexample:
  "hasSubmitted (run H1 deployer [(alice, submit1)]) (sender alice_paying)
   \<and> \<not> calculated (taxRecords (run H1 deployer [(alice, submit1)]) (sender alice_paying))
   \<and> calculateTax H1 (run H1 deployer [(alice, submit1)]) alice_paying = Inl NotPayable
   \<and> hasSubmitted (run H1 deployer [(alice, submit1), (alice, CalculateTax)]) (sender alice_paying)
   \<and> calculated (taxRecords (run H1 deployer [(alice, submit1), (alice, CalculateTax)])
         (sender alice_paying))
   \<and> getTaxOwed (run H1 deployer [(alice, submit1), (alice, CalculateTax)]) alice_paying
       = Inl NotPayable"
  by (simp add: ex_defs alice_paying_def op_defs getTaxOwed_def)

text \<open>
  Claim C3. \<open>submitTaxInfo\<close> fails exactly when a record already exists for the caller
  or one of the two proofs is empty, and a failed submission leaves the ledger as it
  was: the record, \<open>hasSubmitted\<close> and \<open>totalTaxpayers\<close> are unchanged. The two
  listed causes make the call fail in every state. That nothing else does is stated for
  a counter below its largest value \<open>2^256 - 1\<close>, where the checked increment would
  revert the call; every ledger reached by fewer than \<open>2^256 - 1\<close> transactions has
  such a counter.
\<close>

theorem submitTaxInfo_failure:
  "(totalTaxpayers s \<noteq> - 1 \<longrightarrow>
      (isl (submitTaxInfo s e ei ip ed dp) \<longleftrightarrow> hasSubmitted s (sender e) \<or> ip = [] \<or> dp = []))
   \<and> (length cs < 2 ^ 256 - 1 \<longrightarrow> totalTaxpayers (run H dep cs) \<noteq> - 1)
   \<and> (hasSubmitted s (sender e) \<or> ip = [] \<or> dp = [] \<longrightarrow> isl (submitTaxInfo s e ei ip ed dp))
   \<and> (isl (submitTaxInfo s e ei ip ed dp) \<longrightarrow>
        transact H s (e, SubmitTaxInfo ei ip ed dp) = s
        \<and> taxRecords (transact H s (e, SubmitTaxInfo ei ip ed dp)) (sender e) = taxRecords s (sender e)
        \<and> hasSubmitted (transact H s (e, SubmitTaxInfo ei ip ed dp)) (sender e) = hasSubmitted s (sender e)
        \<and> totalTaxpayers (transact H s (e, SubmitTaxInfo ei ip ed dp)) = totalTaxpayers s)"
  using run_total_not_max[of cs H dep]
  by (auto simp: transact_def op_defs split: if_splits sum.splits)

theorem submitTaxInfo_failure_witness:
  "length [(alice, submit1)] < 2 ^ 256 - 1
   \<and> totalTaxpayers (run H1 deployer [(alice, submit1)]) \<noteq> - 1
   \<and> hasSubmitted (run H1 deployer [(alice, submit1)]) (sender alice_later)
   \<and> isl (submitTaxInfo (run H1 deployer [(alice, submit1)]) alice_later (21, 0) [3] (22, 0) [4])
   \<and> transact H1 (run H1 deployer [(alice, submit1)]) (alice_later, SubmitTaxInfo (21, 0) [3] (22, 0) [4])
       = run H1 deployer [(alice, submit1)]
   \<and> totalTaxpayers (run H1 deployer [(alice, submit1), (alice_later, SubmitTaxInfo (21, 0) [3] (22, 0) [4])]) = 1
   \<and> isl (submitTaxInfo (run H1 deployer []) bob (21, 0) [] (22, 0) [4])
   \<and> isl (submitTaxInfo (run H1 deployer []) bob (21, 0) [3] (22, 0) [])
   \<and> \<not> isl (submitTaxInfo (run H1 deployer [(alice, submit1)]) bob (21, 0) [3] (22, 0) [4])"
proof -
  have h: "totalTaxpayers (run H1 deployer [(alice, submit1)]) \<noteq> - 1"
    "totalTaxpayers (run H1 deployer []) \<noteq> - 1"
    "hasSubmitted (run H1 deployer [(alice, submit1)]) (sender alice_later)"
    "\<not> hasSubmitted (run H1 deployer [(alice, submit1)]) (sender bob)"
    by (simp_all add: ex_defs bob_def op_defs)
  have r: "run H1 deployer [(alice, submit1), (alice_later, SubmitTaxInfo (21, 0) [3] (22, 0) [4])]
      = transact H1 (run H1 deployer [(alice, submit1)]) (alice_later, SubmitTaxInfo (21, 0) [3] (22, 0) [4])"
    by (simp add: run_def)
  have t1: "totalTaxpayers (run H1 deployer [(alice, submit1)]) = 1"
    by (simp add: ex_defs op_defs)
  show ?thesis
    using h t1 
      submitTaxInfo_failure[where s="run H1 deployer [(alice, submit1)]" and e=alice_later
        and ip="[3]" and dp="[4]" and ei="(21, 0)" and ed="(22, 0)" and H=H1
        and cs="[(alice, submit1)]" and dep=deployer]
      submitTaxInfo_failure[where s="run H1 deployer []" and e=bob and ip="[]" and dp="[4]" and ei="(21, 0)" and ed="(22, 0)" and H=H1]
      submitTaxInfo_failure[where s="run H1 deployer []" and e=bob and ip="[3]" and dp="[]" and ei="(21, 0)" and ed="(22, 0)" and H=H1]
      submitTaxInfo_failure[where s="run H1 deployer [(alice, submit1)]" and e=bob and ip="[3]" and dp="[4]" and ei="(21, 0)" and ed="(22, 0)" and H=H1]
    unfolding r by simp
qed

lemma clear_then_resubmit_state:
  assumes "hasSubmitted s (sender e)" "totalTaxpayers s \<noteq> - 1" "msg_value e = 0"
  shows "\<exists>s1. clearTaxRecord s e = Inr s1
     \<and> \<not> hasSubmitted s1 (sender e)
     \<and> taxRecords s1 (sender e) = zeroRecord
     \<and> (\<forall>e' ei ip ed dp. sender e' = sender e \<and> ip \<noteq> [] \<and> dp \<noteq> [] \<longrightarrow>
          (\<exists>s2. submitTaxInfo s1 e' ei ip ed dp = Inr s2
             \<and> hasSubmitted s2 (sender e)
             \<and> taxRecords s2 (sender e) =
                 \<lparr>incomeHash = fst ei, deductionsHash = fst ed, taxOwedHash = 0,
                  calculated = False, submissionTime = timestamp e', calculationTime = 0,
                  lastAccessTime = timestamp e'\<rparr>
             \<and> submissionTime (taxRecords s2 (sender e)) = timestamp e'))"
  using assms by (auto simp: op_defs)

text \<open>
  Claim C4, for a call without value. In every reachable ledger state in which the
  caller has submitted, \<open>clearTaxRecord\<close> called without value succeeds; afterwards
  \<open>hasSubmitted\<close> is false for the caller and the record is the zero record; and a
  following \<open>submitTaxInfo\<close> of the same caller with two non-empty proofs, with or
  without value, succeeds and stores a fresh record whose submission time is the
  timestamp of the new submission. A reachable state is one that fewer than
  \<open>2^256 - 1\<close> transactions lead to from the constructor.
\<close>

theorem clear_then_resubmit:
  assumes "length cs < 2 ^ 256 - 1" and "hasSubmitted (run H dep cs) (sender e)"
    and "msg_value e = 0"
  shows "\<exists>s1. clearTaxRecord (run H dep cs) e = Inr s1
     \<and> \<not> hasSubmitted s1 (sender e)
     \<and> taxRecords s1 (sender e) = zeroRecord
     \<and> (\<forall>e' ei ip ed dp. sender e' = sender e \<and> ip \<noteq> [] \<and> dp \<noteq> [] \<longrightarrow>
          (\<exists>s2. submitTaxInfo s1 e' ei ip ed dp = Inr s2
             \<and> hasSubmitted s2 (sender e)
             \<and> taxRecords s2 (sender e) =
                 \<lparr>incomeHash = fst ei, deductionsHash = fst ed, taxOwedHash = 0,
                  calculated = False, submissionTime = timestamp e', calculationTime = 0,
                  lastAccessTime = timestamp e'\<rparr>
             \<and> submissionTime (taxRecords s2 (sender e)) = timestamp e'))"
  using assms(2) run_total_not_max[OF assms(1)] assms(3) by (rule clear_then_resubmit_state)

theorem clear_then_resubmit_witness:
  "length [(alice, submit1), (alice, CalculateTax)] < 2 ^ 256 - 1
   \<and> hasSubmitted (run H1 deployer [(alice, submit1), (alice, CalculateTax)]) (sender alice)
   \<and> msg_value alice = 0
   \<and> (\<exists>s1. clearTaxRecord (run H1 deployer [(alice, submit1), (alice, CalculateTax)]) alice = Inr s1
        \<and> \<not> hasSubmitted s1 (sender alice)
        \<and> taxRecords s1 (sender alice) = zeroRecord
        \<and> (\<exists>s2. submitTaxInfo s1 alice_paying (21, 0) [3] (22, 0) [4] = Inr s2
              \<and> hasSubmitted s2 (sender alice)
              \<and> submissionTime (taxRecords s2 (sender alice)) = 1700000600))"
proof -
  let ?cs = "[(alice, submit1), (alice, CalculateTax)]"
  let ?s = "run H1 deployer ?cs"
  have l: "length ?cs < 2 ^ 256 - 1" by simp
  have h: "hasSubmitted ?s (sender alice)" "msg_value alice = 0"
    "sender alice_paying = sender alice" "timestamp alice_paying = 1700000600"
    by (simp_all add: ex_defs alice_paying_def op_defs)
  from clear_then_resubmit[OF l h(1,2)] obtain s1 where s1:
    "clearTaxRecord ?s alice = Inr s1" "\<not> hasSubmitted s1 (sender alice)"
    "taxRecords s1 (sender alice) = zeroRecord"
    "\<forall>e' ei ip ed dp. sender e' = sender alice \<and> ip \<noteq> [] \<and> dp \<noteq> [] \<longrightarrow>
          (\<exists>s2. submitTaxInfo s1 e' ei ip ed dp = Inr s2
             \<and> hasSubmitted s2 (sender alice)
             \<and> taxRecords s2 (sender alice) =
                 \<lparr>incomeHash = fst ei, deductionsHash = fst ed, taxOwedHash = 0,
                  calculated = False, submissionTime = timestamp e', calculationTime = 0,
                  lastAccessTime = timestamp e'\<rparr>
             \<and> submissionTime (taxRecords s2 (sender alice)) = timestamp e')"
    by blast
  from s1(4)[rule_format, of alice_paying "[3]" "[4]" "(21, 0)" "(22, 0)"] h
  obtain s2 where "submitTaxInfo s1 alice_paying (21, 0) [3] (22, 0) [4] = Inr s2"
    "hasSubmitted s2 (sender alice)" "submissionTime (taxRecords s2 (sender alice)) = 1700000600"
    by auto
  with s1 h(1,2) l show ?thesis by blast
qed

text \<open>
  As the claim states it, for every call, C4 fails: in a reachable state in which the
  caller has submitted, her \<open>clearTaxRecord\<close> sent with one wei reverts, and her record
  stays.
\<close>

theorem clear_then_resubmit_counterexample:
  "hasSubmitted (run H1 deployer [(alice, submit1)]) (sender alice_paying)
   \<and> clearTaxRecord (run H1 deployer [(alice, submit1)]) alice_paying = Inl NotPayable
   \<and> hasSubmitted (transact H1 (run H1 deployer [(alice, submit1)]) (alice_paying, ClearTaxRecord))
         (sender alice_paying)"
  by (simp add: ex_defs alice_paying_def op_defs)




text \<open>
  Claim C9. In every reachable ledger state, for every account, a calculated record
  implies \<open>hasSubmitted\<close>; so \<open>isCalculated\<close> is never true of an account that has not
  submitted, also right after a successful \<open>clearTaxRecord\<close>.
\<close>

theorem calculated_implies_submitted:
  "(isCalculated (run H dep cs) a \<longrightarrow> hasSubmitted (run H dep cs) a)
   \<and> (\<not> hasSubmitted (run H dep cs) a \<longrightarrow> \<not> isCalculated (run H dep cs) a)
   \<and> (clearTaxRecord (run H dep cs) e = Inr s' \<longrightarrow>
        \<not> hasSubmitted s' (sender e) \<and> \<not> isCalculated s' (sender e))"
  using run_calculated_hasSubmitted[of H dep cs a]
  by (auto simp: isCalculated_def clearTaxRecord_def zeroRecord_def Let_def split: if_splits)

theorem calculated_implies_submitted_witness:
  "isCalculated (run H1 deployer [(alice, submit1), (alice_later, CalculateTax)]) 7
   \<and> hasSubmitted (run H1 deployer [(alice, submit1), (alice_later, CalculateTax)]) 7
   \<and> \<not> hasSubmitted (run H1 deployer [(alice, submit1), (alice_later, CalculateTax)]) 9
   \<and> \<not> isCalculated (run H1 deployer [(alice, submit1), (alice_later, CalculateTax)]) 9
   \<and> (\<exists>s'. clearTaxRecord (run H1 deployer [(alice, submit1), (alice_later, CalculateTax)]) alice = Inr s'
        \<and> \<not> hasSubmitted s' 7 \<and> \<not> isCalculated s' 7)"
proof -
  let ?s = "run H1 deployer [(alice, submit1), (alice_later, CalculateTax)]"
  have c: "isCalculated ?s 7" "\<not> hasSubmitted ?s 9" "sender alice = 7"
    by (simp_all add: ex_defs op_defs isCalculated_def)
  obtain s' where s': "clearTaxRecord ?s alice = Inr s'"
    by (simp add: ex_defs op_defs)
  show ?thesis
    using c s' calculated_implies_submitted[of H1 deployer "[(alice, submit1), (alice_later, CalculateTax)]" 7 alice s']
      calculated_implies_submitted[of H1 deployer "[(alice, submit1), (alice_later, CalculateTax)]" 9 alice s']
    by simp
qed

text \<open>
  Claim C10. The counter \<open>totalTaxpayers\<close> that \<open>getContractStats\<close> reports never
  decreases, over one transaction and over any further run; a successful
  \<open>submitTaxInfo\<close> increments it by one, \<open>clearTaxRecord\<close>, \<open>calculateTax\<close> and
  \<open>emergencyPause\<close> leave it unchanged; so it counts successful submissions, and an
  account that submits, clears (a call without value) and submits again is counted
  twice.
\<close>

theorem totalTaxpayers_cumulative:
  "fst (getContractStats s) \<le> fst (getContractStats (transact H s c))
   \<and> fst (getContractStats (run H dep cs)) \<le> fst (getContractStats (run H dep (cs @ cs')))
   \<and> (submitTaxInfo s e ei ip ed dp = Inr s' \<longrightarrow>
        unat (totalTaxpayers s') = unat (totalTaxpayers s) + 1)
   \<and> (clearTaxRecord s e = Inr s' \<longrightarrow> totalTaxpayers s' = totalTaxpayers s)
   \<and> (calculateTax H s e = Inr s' \<longrightarrow> totalTaxpayers s' = totalTaxpayers s)
   \<and> (emergencyPause s e = Inr s' \<longrightarrow> totalTaxpayers s' = totalTaxpayers s)
   \<and> (ip \<noteq> [] \<and> dp \<noteq> [] \<longrightarrow>
        fst (getContractStats (run H dep
          [(e, SubmitTaxInfo ei ip ed dp), (e\<lparr>msg_value := 0\<rparr>, ClearTaxRecord),
           (e, SubmitTaxInfo ei ip ed dp)])) = 2)"
proof -
  have 1: "fst (getContractStats s) \<le> fst (getContractStats (transact H s c))"
    by (simp add: getContractStats_def transact_total_mono)
  have 2: "fst (getContractStats (run H dep cs)) \<le> fst (getContractStats (run H dep (cs @ cs')))"
    by (simp add: getContractStats_def run_append foldl_transact_total_mono)
  have 3: "submitTaxInfo s e ei ip ed dp = Inr s' \<longrightarrow>
        unat (totalTaxpayers s') = unat (totalTaxpayers s) + 1"
    by (auto simp: op_defs unat_checked_inc split: if_splits)
  have 4: "clearTaxRecord s e = Inr s' \<longrightarrow> totalTaxpayers s' = totalTaxpayers s"
    by (auto simp: op_defs split: if_splits)
  have 5: "calculateTax H s e = Inr s' \<longrightarrow> totalTaxpayers s' = totalTaxpayers s"
    by (auto simp: op_defs split: if_splits)
  have 7: "emergencyPause s e = Inr s' \<longrightarrow> totalTaxpayers s' = totalTaxpayers s"
    by (auto simp: op_defs split: if_splits)
  have 6: "ip \<noteq> [] \<and> dp \<noteq> [] \<longrightarrow>
        fst (getContractStats (run H dep
          [(e, SubmitTaxInfo ei ip ed dp), (e\<lparr>msg_value := 0\<rparr>, ClearTaxRecord),
           (e, SubmitTaxInfo ei ip ed dp)])) = 2"
    by (simp add: getContractStats_def run_def transact_def constructor_def op_defs)
  from 1 2 3 4 5 6 7 show ?thesis by blast
qed

theorem totalTaxpayers_cumulative_witness:
  "fst (getContractStats (run H1 deployer [(alice, submit1)])) = 1
   \<and> fst (getContractStats (run H1 deployer [(alice, submit1), (alice, ClearTaxRecord)])) = 1
   \<and> fst (getContractStats (run H1 deployer
         [(alice, submit1), (alice, ClearTaxRecord), (alice, submit1)])) = 2"
proof -
  have a: "fst (getContractStats (run H1 deployer [(alice, submit1)])) = 1"
    by (simp add: ex_defs op_defs getContractStats_def)
  have b: "fst (getContractStats (run H1 deployer [(alice, submit1), (alice, ClearTaxRecord)])) = 1"
    by (simp add: ex_defs op_defs getContractStats_def)
  have ne: "[1::8 word] \<noteq> [] \<and> [2::8 word] \<noteq> []" by simp
  have al: "alice\<lparr>msg_value := 0\<rparr> = alice" by (simp add: alice_def)
  from totalTaxpayers_cumulative[where H=H1 and dep=deployer and e=alice and ei="(11, 0)"
      and ip="[1]" and ed="(12, 0)" and dp="[2]"] ne
  have "fst (getContractStats (run H1 deployer
         [(alice, SubmitTaxInfo (11, 0) [1] (12, 0) [2]), (alice\<lparr>msg_value := 0\<rparr>, ClearTaxRecord),
          (alice, SubmitTaxInfo (11, 0) [1] (12, 0) [2])])) = 2"
    by blast
  then have "fst (getContractStats (run H1 deployer
         [(alice, submit1), (alice, ClearTaxRecord), (alice, submit1)])) = 2"
    by (simp only: al submit1_def)
  with a b show ?thesis by simp
qed

section \<open>Properties of the tax engine\<close>

subsection \<open>The binary exponent\<close>

lemma p2_less_iff: "(2::rat) powi a < 2 powi b \<longleftrightarrow> a < b"
proof
  assume "(2::rat) powi a < 2 powi b"
  show "a < b"
  proof (rule ccontr)
    assume "\<not> a < b"
    then have "(2::rat) powi b \<le> 2 powi a"
      by (intro power_int_increasing) auto
    with \<open>(2::rat) powi a < 2 powi b\<close> show False by simp
  qed
next
  assume "a < b"
  then show "(2::rat) powi a < 2 powi b"
    by (intro power_int_strict_increasing) auto
qed

lemma p2_le_iff: "(2::rat) powi a \<le> 2 powi b \<longleftrightarrow> a \<le> b"
  using p2_less_iff[of b a] by (auto simp: not_less[symmetric])

lemma p2_pos: "0 < (2::rat) powi e"
  by simp

lemma p2_le_abs_nonzero:
  assumes "(2::rat) powi e \<le> \<bar>x\<bar>"
  shows "x \<noteq> 0"
proof
  assume "x = 0"
  with assms have "(2::rat) powi e \<le> 0" by simp
  with p2_pos[of e] show False by linarith
qed

lemma expo_bounds_ge1:
  assumes "1 \<le> \<bar>x\<bar>"
  shows "2 powi (expo x) \<le> \<bar>x\<bar>" "\<bar>x\<bar> < 2 powi (expo x + 1)"
proof -
  let ?n = "\<lfloor>\<bar>x\<bar>\<rfloor>"
  have n: "0 < ?n" using assms by simp
  have e: "expo x = bitlen ?n - 1" using assms by (simp add: expo_def)
  have b1: "1 \<le> bitlen ?n" using n bitlen_eq_zero_iff[of ?n] bitlen_nonneg[of ?n] by linarith
  from bitlen_bounds[OF n] have lo: "2 ^ nat (bitlen ?n - 1) \<le> ?n" and hi: "?n < 2 ^ nat (bitlen ?n)"
    by auto
  have "(2::rat) powi (expo x) = of_int (2 ^ nat (bitlen ?n - 1))"
    using b1 by (simp add: e power_int_def)
  also have "\<dots> \<le> of_int ?n" using lo by (simp only: of_int_le_iff)
  also have "\<dots> \<le> \<bar>x\<bar>" by simp
  finally show "2 powi (expo x) \<le> \<bar>x\<bar>" .
  have "?n + 1 \<le> 2 ^ nat (bitlen ?n)" using hi by simp
  then have "(of_int (?n + 1)::rat) \<le> of_int (2 ^ nat (bitlen ?n))"
    by (simp only: of_int_le_iff)
  moreover have "\<bar>x\<bar> < of_int (?n + 1)" by simp linarith
  moreover have "(2::rat) powi (expo x + 1) = of_int (2 ^ nat (bitlen ?n))"
    using b1 by (simp add: e power_int_def)
  ultimately show "\<bar>x\<bar> < 2 powi (expo x + 1)" by simp
qed

lemma expo_bounds_lt1:
  assumes "x \<noteq> 0" "\<bar>x\<bar> < 1"
  shows "2 powi (expo x) \<le> \<bar>x\<bar>" "\<bar>x\<bar> < 2 powi (expo x + 1)"
proof -
  define y where "y = 1 / \<bar>x\<bar>"
  let ?k = "\<lceil>y\<rceil> - 1"
  have ax: "0 < \<bar>x\<bar>" using assms by simp
  have y1: "1 < y" using assms ax by (simp add: y_def)
  have ypos: "0 < y" using y1 by simp
  have k: "0 < ?k" using y1 by (simp add: less_ceiling_iff)
  have e: "expo x = - bitlen ?k" using assms by (simp add: expo_def y_def)
  have b1: "1 \<le> bitlen ?k" using k bitlen_eq_zero_iff[of ?k] bitlen_nonneg[of ?k] by linarith
  from bitlen_bounds[OF k] have lo: "2 ^ nat (bitlen ?k - 1) \<le> ?k" and hi: "?k < 2 ^ nat (bitlen ?k)"
    by auto
  have xy: "\<bar>x\<bar> = 1 / y" using ax by (simp add: y_def)
  have "y \<le> of_int \<lceil>y\<rceil>" by simp
  also have "\<lceil>y\<rceil> \<le> 2 ^ nat (bitlen ?k)" using hi by simp
  then have "(of_int \<lceil>y\<rceil>::rat) \<le> of_int (2 ^ nat (bitlen ?k))" by (simp only: of_int_le_iff)
  finally have yle: "y \<le> 2 ^ nat (bitlen ?k)" by simp
  have "(2::rat) powi (expo x) = 1 / 2 ^ nat (bitlen ?k)"
    using b1 by (simp add: e power_int_def field_simps)
  also have "\<dots> \<le> 1 / y" using yle ypos by (simp add: frac_le)
  finally show "2 powi (expo x) \<le> \<bar>x\<bar>" by (simp add: xy)
  have "(of_int (2 ^ nat (bitlen ?k - 1))::rat) \<le> of_int ?k" using lo by (simp only: of_int_le_iff)
  also have "of_int ?k < y" by simp linarith
  finally have ylt: "2 ^ nat (bitlen ?k - 1) < y" by simp
  have "(2::rat) powi (expo x + 1) = 1 / 2 ^ nat (bitlen ?k - 1)"
    using b1 by (simp add: e power_int_def field_simps nat_diff_distrib)
  moreover have "1 / y < 1 / 2 ^ nat (bitlen ?k - 1)"
    using ylt by (simp add: frac_less2)
  ultimately show "\<bar>x\<bar> < 2 powi (expo x + 1)" by (simp add: xy)
qed

lemma expo_bounds:
  assumes "x \<noteq> 0"
  shows "2 powi (expo x) \<le> \<bar>x\<bar>" "\<bar>x\<bar> < 2 powi (expo x + 1)"
  using expo_bounds_ge1[of x] expo_bounds_lt1[OF assms] by (cases "1 \<le> \<bar>x\<bar>"; simp)+

lemma expo_eqI:
  assumes "2 powi e \<le> \<bar>x\<bar>" "\<bar>x\<bar> < 2 powi (e + 1)"
  shows "expo x = e"
proof -
  have x: "x \<noteq> 0" using assms(1) by (rule p2_le_abs_nonzero)
  from expo_bounds[OF x] assms
  have "(2::rat) powi e < 2 powi (expo x + 1)" "(2::rat) powi (expo x) < 2 powi (e + 1)"
    by linarith+
  then show ?thesis by (simp add: p2_less_iff)
qed

lemma expo_mono:
  assumes "x \<noteq> 0" "\<bar>x\<bar> \<le> \<bar>y\<bar>"
  shows "expo x \<le> expo y"
proof -
  have y: "y \<noteq> 0" using assms by auto
  from expo_bounds[OF assms(1)] expo_bounds[OF y] assms(2)
  have "(2::rat) powi (expo x) < 2 powi (expo y + 1)" by linarith
  then show ?thesis by (simp add: p2_less_iff)
qed

subsection \<open>Rounding to the nearest even integer\<close>

lemma rhe_of_int: "round_half_even (of_int k) = k"
  by (simp add: round_half_even_def)

lemma rhe_near:
  assumes "\<bar>y - of_int K\<bar> < 1 / 2"
  shows "round_half_even y = K"
proof -
  from assms have lo: "of_int K - 1 / 2 < y" and hi: "y < of_int K + 1 / 2"
    by linarith+
  show ?thesis
  proof (cases "of_int K \<le> y")
    case True
    have "\<lfloor>y\<rfloor> = K"
    proof (rule floor_unique)
      show "of_int K \<le> y" by (rule True)
      show "y < of_int K + 1" using hi by linarith
    qed
    with hi show ?thesis by (simp add: round_half_even_def)
  next
    case False
    have f: "\<lfloor>y\<rfloor> = K - 1"
    proof (rule floor_unique)
      have "of_int K - 1 \<le> y" using lo by linarith
      then show "of_int (K - 1) \<le> y" by simp
      show "y < of_int (K - 1) + 1" using False by simp
    qed
    have "1 / 2 < y - (of_int K - 1)" using lo by linarith
    then show ?thesis unfolding round_half_even_def Let_def f by simp
  qed
qed

lemma rhe_range: "\<lfloor>y\<rfloor> \<le> round_half_even y" "round_half_even y \<le> \<lfloor>y\<rfloor> + 1"
  by (simp_all add: round_half_even_def Let_def)

lemma rhe_mono:
  assumes "x \<le> y"
  shows "round_half_even x \<le> round_half_even y"
proof (cases "\<lfloor>x\<rfloor> = \<lfloor>y\<rfloor>")
  case True
  with assms show ?thesis
    by (auto simp: round_half_even_def Let_def)
next
  case False
  with assms have "\<lfloor>x\<rfloor> < \<lfloor>y\<rfloor>" using floor_mono[OF assms] by linarith
  with rhe_range(2)[of x] rhe_range(1)[of y] show ?thesis by linarith
qed

lemma rhe_ge: "of_int a \<le> y \<Longrightarrow> a \<le> round_half_even y"
  using rhe_mono[of "of_int a" y] by (simp add: rhe_of_int)

lemma rhe_le: "y \<le> of_int b \<Longrightarrow> round_half_even y \<le> b"
  using rhe_mono[of y "of_int b"] by (simp add: rhe_of_int)

lemma rhe_neg: "round_half_even (- y) = - round_half_even y"
proof (cases "y = of_int \<lfloor>y\<rfloor>")
  case True
  then show ?thesis using rhe_of_int[of "- \<lfloor>y\<rfloor>"] rhe_of_int[of "\<lfloor>y\<rfloor>"]
    by (metis of_int_minus)
next
  case False
  have "\<lceil>y\<rceil> = \<lfloor>y\<rfloor> + 1" using False by (simp add: ceiling_altdef)
  then have c: "\<lfloor>- y\<rfloor> = - \<lfloor>y\<rfloor> - 1" by (simp add: ceiling_def)
  show ?thesis
    unfolding round_half_even_def Let_def c
    by (auto simp: algebra_simps)
qed

subsection \<open>Rounding to binary64\<close>

text \<open>Rounding is odd, monotone, fixes every dyadic rational with a numerator below
  \<open>2^53\<close>, and returns a representable value that is less than half a unit away.\<close>

lemma p2_shift52: "(2::rat) powi (e - 52) * 2 ^ 52 = 2 powi e"
proof -
  have "(2::rat) powi (e - 52 + 52) = 2 powi (e - 52) * 2 powi 52"
    by (rule power_int_add) simp
  moreover have "(2::rat) powi 52 = 2 ^ 52" by (rule power_int_numeral)
  moreover have "e - 52 + 52 = e" by simp
  ultimately show ?thesis by (simp only:)
qed

lemma p2_shift53: "(2::rat) powi (e - 52) * 2 ^ 53 = 2 powi (e + 1)"
proof -
  have "(2::rat) powi (e - 52 + 53) = 2 powi (e - 52) * 2 powi 53"
    by (rule power_int_add) simp
  moreover have "(2::rat) powi 53 = 2 ^ 53" by (rule power_int_numeral)
  moreover have "e - 52 + 53 = e + 1" by simp
  ultimately show ?thesis by (simp only:)
qed

lemma expo_minus: "expo (- x) = expo x"
  by (simp add: expo_def)

lemma ulp_minus: "ulp (- x) = ulp x"
  by (simp add: ulp_def expo_minus)

lemma ulp_pos: "0 < ulp x"
  by (simp add: ulp_def)

lemma rnd_minus: "rnd (- x) = - rnd x"
  by (simp add: rnd_def ulp_minus rhe_neg)

lemma rnd_nonneg: "0 \<le> x \<Longrightarrow> 0 \<le> rnd x"
proof -
  assume "0 \<le> x"
  then have "of_int 0 \<le> x / ulp x" using ulp_pos[of x] by simp
  then have "0 \<le> round_half_even (x / ulp x)" by (rule rhe_ge)
  then show ?thesis using ulp_pos[of x] by (simp add: rnd_def)
qed

lemma rnd_nonpos: "x \<le> 0 \<Longrightarrow> rnd x \<le> 0"
  using rnd_nonneg[of "- x"] by (simp add: rnd_minus)

text \<open>Within a binade the result stays within the binade's closed interval.\<close>

lemma rnd_upper:
  assumes "0 < x" "e = max (expo x) (- 1022)"
  shows "rnd x \<le> 2 powi (e + 1)"
proof -
  have x0: "x \<noteq> 0" using assms by simp
  have u: "ulp x = 2 powi (e - 52)" by (simp add: ulp_def assms)
  have "x < 2 powi (expo x + 1)" using expo_bounds(2)[OF x0] assms by simp
  also have "\<dots> \<le> 2 powi (e + 1)" by (simp add: p2_le_iff assms)
  also have "\<dots> = ulp x * 2 ^ 53" unfolding u by (rule p2_shift53[symmetric])
  finally have "x / ulp x \<le> of_int (2 ^ 53)" using ulp_pos[of x] by (simp add: field_simps)
  then have "round_half_even (x / ulp x) \<le> 2 ^ 53" by (rule rhe_le)
  then have "(of_int (round_half_even (x / ulp x))::rat) \<le> of_int (2 ^ 53)"
    by (simp only: of_int_le_iff)
  then have "of_int (round_half_even (x / ulp x)) * ulp x \<le> ulp x * 2 ^ 53"
    using ulp_pos[of x] by simp
  also have "ulp x * 2 ^ 53 = 2 powi (e + 1)" unfolding u by (rule p2_shift53)
  finally show ?thesis using x0 by (simp add: rnd_def)
qed

lemma rnd_lower:
  assumes "0 < x" "- 1022 \<le> expo x"
  shows "2 powi (expo x) \<le> rnd x"
proof -
  have x0: "x \<noteq> 0" using assms by simp
  have u: "ulp x = 2 powi (expo x - 52)" using assms by (simp add: ulp_def max_def)
  have "ulp x * 2 ^ 52 = 2 powi (expo x)" unfolding u by (rule p2_shift52)
  also have "\<dots> \<le> x" using expo_bounds(1)[OF x0] assms by simp
  finally have "of_int (2 ^ 52) \<le> x / ulp x" using ulp_pos[of x] by (simp add: field_simps)
  then have "2 ^ 52 \<le> round_half_even (x / ulp x)" by (rule rhe_ge)
  then have "(of_int (2 ^ 52)::rat) \<le> of_int (round_half_even (x / ulp x))"
    by (simp only: of_int_le_iff)
  then have "ulp x * 2 ^ 52 \<le> of_int (round_half_even (x / ulp x)) * ulp x"
    using ulp_pos[of x] by simp
  moreover have "ulp x * 2 ^ 52 = 2 powi (expo x)" unfolding u by (rule p2_shift52)
  ultimately show ?thesis using x0 by (simp add: rnd_def)
qed

lemma rnd_mono_pos:
  assumes "0 < x" "x \<le> y"
  shows "rnd x \<le> rnd y"
proof -
  define ex where "ex = max (expo x) (- 1022)"
  define ey where "ey = max (expo y) (- 1022)"
  have x0: "x \<noteq> 0" and y0: "y \<noteq> 0" and ypos: "0 < y" using assms by auto
  have "expo x \<le> expo y" using assms by (intro expo_mono) auto
  then have le: "ex \<le> ey" by (simp add: ex_def ey_def)
  show ?thesis
  proof (cases "ex = ey")
    case True
    then have u: "ulp x = ulp y" by (simp add: ulp_def ex_def ey_def)
    have "x / ulp y \<le> y / ulp y" using assms ulp_pos[of y] by (simp add: divide_right_mono)
    then have "round_half_even (x / ulp y) \<le> round_half_even (y / ulp y)" by (rule rhe_mono)
    then have "(of_int (round_half_even (x / ulp y))::rat) \<le> of_int (round_half_even (y / ulp y))"
      by (simp only: of_int_le_iff)
    then show ?thesis using x0 y0 ulp_pos[of y] by (simp add: rnd_def u)
  next
    case False
    with le have lt: "ex < ey" by simp
    then have ey: "ey = expo y" "- 1022 \<le> expo y" by (auto simp: ex_def ey_def max_def split: if_splits)
    have "rnd x \<le> 2 powi (ex + 1)" using assms(1) ex_def by (rule rnd_upper)
    also have "\<dots> \<le> 2 powi ey" using lt by (simp add: p2_le_iff)
    also have "\<dots> \<le> rnd y" using rnd_lower[OF ypos ey(2)] ey(1) by simp
    finally show ?thesis .
  qed
qed

lemma rnd_mono:
  assumes "x \<le> y"
  shows "rnd x \<le> rnd y"
proof -
  consider "0 < x" | "x \<le> 0" "0 \<le> y" | "y < 0" by linarith
  then show ?thesis
  proof cases
    case 1
    from 1 assms show ?thesis by (rule rnd_mono_pos)
  next
    case 2
    then show ?thesis using rnd_nonpos[of x] rnd_nonneg[of y] by linarith
  next
    case 3
    then have "rnd (- y) \<le> rnd (- x)" using assms by (intro rnd_mono_pos) auto
    then show ?thesis by (simp add: rnd_minus)
  qed
qed

lemma rnd_fix:
  assumes "x / ulp x = of_int k"
  shows "rnd x = x"
proof (cases "x = 0")
  case True
  then show ?thesis by (simp add: rnd_def)
next
  case False
  have "x = of_int k * ulp x" using assms ulp_pos[of x] by (simp add: field_simps)
  then show ?thesis using False by (simp add: rnd_def assms rhe_of_int)
qed

lemma rnd_dyadic:
  assumes "\<bar>j\<bar> < 2 ^ 53" "s \<le> 1074"
  shows "rnd (of_int j / 2 ^ s) = of_int j / 2 ^ s"
proof (cases "j = 0")
  case True
  then show ?thesis by (simp add: rnd_def)
next
  case False
  define x :: rat where "x = of_int j / 2 ^ s"
  define e where "e = max (expo x) (- 1022)"
  have x0: "x \<noteq> 0" using False by (simp add: x_def)
  have "(of_int \<bar>j\<bar>::rat) < of_int (2 ^ 53)" using assms(1) by (simp only: of_int_less_iff)
  then have "\<bar>x\<bar> < 2 ^ 53 / 2 ^ s" by (simp add: x_def divide_strict_right_mono)
  also have "(2::rat) ^ 53 / 2 ^ s = 2 powi (53 - int s)"
    by (simp add: power_int_diff)
  finally have "2 powi (expo x) < (2::rat) powi (53 - int s)"
    using expo_bounds(1)[OF x0] by linarith
  then have "expo x < 53 - int s" by (simp add: p2_less_iff)
  then have n: "0 \<le> 52 - int s - e" using assms(2) by (simp add: e_def)
  have "x / ulp x = of_int j * (1 / 2 ^ s / 2 powi (e - 52))"
    by (simp add: x_def ulp_def e_def)
  also have "1 / 2 ^ s / (2::rat) powi (e - 52) = 2 powi (52 - int s - e)"
  proof -
    have "(2::rat) powi (52 - int s - e) = 2 powi (- int s) / 2 powi (e - 52)"
      using power_int_diff[of "2::rat" "- int s" "e - 52"] by (simp add: algebra_simps)
    also have "(2::rat) powi (- int s) = 1 / 2 ^ s"
      by (simp add: power_int_minus field_simps)
    finally show ?thesis by simp
  qed
  also have "(2::rat) powi (52 - int s - e) = of_int (2 ^ nat (52 - int s - e))"
    using n by (simp add: power_int_def)
  finally have "x / ulp x = of_int (j * 2 ^ nat (52 - int s - e))" by simp
  then show ?thesis unfolding x_def[symmetric] by (rule rnd_fix)
qed

lemma rnd_of_int:
  assumes "\<bar>k\<bar> < 2 ^ 53"
  shows "rnd (of_int k) = of_int k"
  using rnd_dyadic[OF assms, of 0] by simp

lemma rnd_eqI:
  assumes "2 powi e \<le> \<bar>x\<bar>" "\<bar>x\<bar> < 2 powi (e + 1)" "- 1022 \<le> e"
    and "\<bar>x / 2 powi (e - 52) - of_int K\<bar> < 1 / 2"
  shows "rnd x = of_int K * 2 powi (e - 52)"
proof -
  have e: "expo x = e" using assms(1,2) by (rule expo_eqI)
  have x0: "x \<noteq> 0" using assms(1) by (rule p2_le_abs_nonzero)
  have u: "ulp x = 2 powi (e - 52)" using assms(3) by (simp add: ulp_def e max_def)
  show ?thesis using x0 rhe_near[OF assms(4)] by (simp add: rnd_def u)
qed

text \<open>The result of rounding is within half a unit of the exact value, and it is
  representable: rounding it again returns it.\<close>

lemma rhe_error: "\<bar>of_int (round_half_even y) - y\<bar> \<le> 1 / 2"
  unfolding round_half_even_def Let_def
  by (auto simp: abs_if) linarith+

lemma rnd_error: "\<bar>rnd x - x\<bar> \<le> ulp x / 2"
proof (cases "x = 0")
  case True
  then show ?thesis using ulp_pos[of 0] by (simp add: rnd_def)
next
  case False
  have "rnd x - x = (of_int (round_half_even (x / ulp x)) - x / ulp x) * ulp x"
    using False ulp_pos[of x] by (simp add: rnd_def field_simps)
  then have "\<bar>rnd x - x\<bar> = \<bar>of_int (round_half_even (x / ulp x)) - x / ulp x\<bar> * ulp x"
    using ulp_pos[of x] by (simp add: abs_mult)
  also have "\<dots> \<le> 1 / 2 * ulp x"
    using rhe_error[of "x / ulp x"] ulp_pos[of x] by (intro mult_right_mono) simp_all
  finally show ?thesis by simp
qed

lemma rnd_idem: "rnd (rnd x) = rnd x"
proof -
  have pos: "rnd (rnd x) = rnd x" if "0 < x" for x
  proof (cases "rnd x = 0")
    case True
    then show ?thesis by (simp add: rnd_def)
  next
    case False
    define e where "e = max (expo x) (- 1022)"
    define K where "K = round_half_even (x / ulp x)"
    have u: "ulp x = 2 powi (e - 52)" by (simp add: ulp_def e_def)
    have x0: "x \<noteq> 0" using that by simp
    have r: "rnd x = of_int K * 2 powi (e - 52)" using x0 by (simp add: rnd_def K_def u)
    have rpos: "0 < rnd x" using rnd_nonneg[of x] that False by simp
    have up: "rnd x \<le> 2 powi (e + 1)" using that e_def by (rule rnd_upper)
    show ?thesis
    proof (cases "rnd x = 2 powi (e + 1)")
      case True
      have "expo (rnd x) = e + 1" unfolding True by (rule expo_eqI) (simp_all add: p2_less_iff)
      then have "ulp (rnd x) = 2 powi (e + 1 - 52)" by (simp add: ulp_def e_def max_def)
      moreover have "(2::rat) powi (e + 1) / 2 powi (e + 1 - 52) = of_int (2 ^ 52)"
        using p2_shift52[of "e + 1"] by (simp add: field_simps)
      ultimately show ?thesis unfolding True by (intro rnd_fix) simp
    next
      case ne: False
      with up have lt: "rnd x < 2 powi (e + 1)" by simp
      have "expo (rnd x) \<le> e"
      proof -
        have "2 powi (expo (rnd x)) \<le> \<bar>rnd x\<bar>" using False by (intro expo_bounds)
        with lt rpos have "(2::rat) powi (expo (rnd x)) < 2 powi (e + 1)" by simp
        then show ?thesis by (simp add: p2_less_iff)
      qed
      moreover have "e \<le> max (expo (rnd x)) (- 1022)"
      proof (cases "- 1022 \<le> expo x")
        case True
        then have "2 powi (expo x) \<le> rnd x" using that by (intro rnd_lower)
        with expo_bounds(2)[OF False] rpos have "(2::rat) powi (expo x) < 2 powi (expo (rnd x) + 1)"
          by simp
        then have "expo x \<le> expo (rnd x)" by (simp add: p2_less_iff)
        then show ?thesis using True by (simp add: e_def)
      next
        case False
        then show ?thesis by (simp add: e_def)
      qed
      ultimately have "max (expo (rnd x)) (- 1022) = e" by (simp add: e_def)
      then have "ulp (rnd x) = 2 powi (e - 52)" by (simp add: ulp_def)
      then have "rnd x / ulp (rnd x) = of_int K" by (simp add: r)
      then show ?thesis by (rule rnd_fix)
    qed
  qed
  consider "0 < x" | "x = 0" | "x < 0" by linarith
  then show ?thesis
  proof cases
    case 1
    then show ?thesis by (rule pos)
  next
    case 2
    then show ?thesis by (simp add: rnd_def)
  next
    case 3
    then have "rnd (rnd (- x)) = rnd (- x)" by (intro pos) simp
    then show ?thesis by (simp add: rnd_minus)
  qed
qed

subsection \<open>Finite results and the constants of the source\<close>

lemma max_double_bounds: "2 powi 1023 \<le> \<bar>max_double\<bar>" "\<bar>max_double\<bar> < 2 powi (1023 + 1)"
  by (simp_all add: max_double_def)

lemma expo_max_double: "expo max_double = 1023"
  using max_double_bounds by (rule expo_eqI)

lemma ulp_max_double: "ulp max_double = 2 ^ 971"
  by (simp add: ulp_def expo_max_double)

lemma rnd_max_double: "rnd max_double = max_double"
proof (rule rnd_fix)
  show "max_double / ulp max_double = of_int (2 ^ 53 - 1)"
    unfolding ulp_max_double by (simp add: max_double_def)
qed

lemma round_result_Fin:
  assumes "\<bar>x\<bar> \<le> max_double"
  shows "round_result x = Fin (rnd x)"
proof -
  have "rnd x \<le> rnd max_double" using assms by (intro rnd_mono) linarith
  moreover have "rnd (- max_double) \<le> rnd x" using assms by (intro rnd_mono) linarith
  ultimately show ?thesis
    by (simp add: round_result_def rnd_max_double rnd_minus Let_def)
qed

lemma rnd_le_max_double: "x \<le> max_double \<Longrightarrow> rnd x \<le> max_double"
  using rnd_mono[of x max_double] by (simp add: rnd_max_double)

lemma two53_le_max_double: "2 ^ 53 \<le> max_double"
  by (simp add: max_double_def)

lemma small_le_abs: "- b \<le> x \<Longrightarrow> x \<le> b \<Longrightarrow> b \<le> 2 ^ 53 \<Longrightarrow> \<bar>x\<bar> \<le> max_double"
  using two53_le_max_double by linarith

lemma round_result_small:
  assumes "\<bar>x\<bar> \<le> 2 ^ 53"
  shows "round_result x = Fin (rnd x)"
  using assms two53_le_max_double by (intro round_result_Fin) linarith

lemma d_consts:
  "rnd (10 / 100) = 3602879701896397 / 36028797018963968"
  "rnd (20 / 100) = 3602879701896397 / 18014398509481984"
  "rnd (30 / 100) = 5404319552844595 / 18014398509481984"
  by code_simp+

lemma rnd_numeral: "rnd 0 = 0" "rnd 5000 = 5000" "rnd 10000 = 10000" "rnd 15000 = 15000"
  "rnd 50000 = 50000" "rnd 100000 = 100000"
  using rnd_of_int[of 0] rnd_of_int[of 5000] rnd_of_int[of 10000] rnd_of_int[of 15000]
    rnd_of_int[of 50000] rnd_of_int[of 100000]
  by simp_all

lemma lit_consts:
  "lit 0 = Fin 0" "lit 5000 = Fin 5000" "lit 15000 = Fin 15000"
  "lit 50000 = Fin 50000" "lit 100000 = Fin 100000"
  "lit (10 / 100) = Fin (3602879701896397 / 36028797018963968)"
  "lit (20 / 100) = Fin (3602879701896397 / 18014398509481984)"
  "lit (30 / 100) = Fin (5404319552844595 / 18014398509481984)"
proof -
  show "lit 0 = Fin 0" unfolding lit_def by (subst round_result_small) (simp_all add: rnd_numeral)
  show "lit 5000 = Fin 5000" unfolding lit_def by (subst round_result_small) (simp_all add: rnd_numeral)
  show "lit 15000 = Fin 15000" unfolding lit_def by (subst round_result_small) (simp_all add: rnd_numeral)
  show "lit 50000 = Fin 50000" unfolding lit_def by (subst round_result_small) (simp_all add: rnd_numeral)
  show "lit 100000 = Fin 100000" unfolding lit_def by (subst round_result_small) (simp_all add: rnd_numeral)
  show "lit (10 / 100) = Fin (3602879701896397 / 36028797018963968)"
    unfolding lit_def d_consts(1)[symmetric] by (rule round_result_small) simp
  show "lit (20 / 100) = Fin (3602879701896397 / 18014398509481984)"
    unfolding lit_def d_consts(2)[symmetric] by (rule round_result_small) simp
  show "lit (30 / 100) = Fin (5404319552844595 / 18014398509481984)"
    unfolding lit_def d_consts(3)[symmetric] by (rule round_result_small) simp
qed

lemma rnd_5000: "rnd (50000 * (3602879701896397 / 36028797018963968)) = 5000"
  by code_simp

lemma rnd_10000: "rnd (50000 * (3602879701896397 / 18014398509481984)) = 10000"
  by code_simp

lemma folded_consts:
  "num_mul (Fin 50000) (Fin (3602879701896397 / 36028797018963968)) = Fin 5000"
  "num_mul (Fin 50000) (Fin (3602879701896397 / 18014398509481984)) = Fin 10000"
  "num_add (Fin 5000) (Fin 10000) = Fin 15000"
proof -
  have "round_result (50000 * (3602879701896397 / 36028797018963968))
      = Fin (rnd (50000 * (3602879701896397 / 36028797018963968)))"
    by (rule round_result_small) simp
  then show "num_mul (Fin 50000) (Fin (3602879701896397 / 36028797018963968)) = Fin 5000"
    by (simp only: num_mul.simps rnd_5000)
  have "round_result (50000 * (3602879701896397 / 18014398509481984))
      = Fin (rnd (50000 * (3602879701896397 / 18014398509481984)))"
    by (rule round_result_small) simp
  then show "num_mul (Fin 50000) (Fin (3602879701896397 / 18014398509481984)) = Fin 10000"
    by (simp only: num_mul.simps rnd_10000)
  have "round_result (5000 + 10000) = Fin (rnd (5000 + 10000))"
    by (rule round_result_small) simp
  then show "num_add (Fin 5000) (Fin 10000) = Fin 15000"
    by (simp add: rnd_numeral)
qed

lemma rnd_big: "rnd big = big"
proof (rule rnd_fix)
  have "expo big = 1023" unfolding big_def by (rule expo_eqI) simp_all
  then have "ulp big = 2 ^ 971" by (simp add: ulp_def)
  then show "big / ulp big = of_int (2 ^ 52)" by (simp add: big_def)
qed

lemma big_bounds: "max_double * (1 / 2) \<le> big" "big \<le> max_double" "15000 + big \<le> max_double"
  by (simp_all add: max_double_def big_def)

subsection \<open>No overflow on finite non-negative arguments\<close>

lemma num_sub_Fin:
  assumes "\<bar>a - b\<bar> \<le> max_double"
  shows "num_sub (Fin a) (Fin b) = Fin (rnd (a - b))"
  using round_result_Fin[OF assms] by (simp add: num_sub_def)

lemma Math_max_Fin: "Math_max (Fin a) (Fin b) = Fin (max a b)"
  by (simp add: Math_max_def max_def)

lemma bracket1_fin:
  assumes "0 \<le> t" "t \<le> max_double"
  shows "num_mul (Fin t) (Fin (rnd (10 / 100))) = Fin (rnd (t * rnd (10 / 100)))"
proof -
  have "t * rnd (10 / 100) \<le> t * 1" using assms(1) unfolding d_consts
    by (intro mult_left_mono) simp_all
  moreover have "0 \<le> t * rnd (10 / 100)" using assms(1) unfolding d_consts by simp
  ultimately have "\<bar>t * rnd (10 / 100)\<bar> \<le> max_double" using assms(2) by simp
  then show ?thesis by (simp add: round_result_Fin)
qed

lemma bracket2_fin:
  assumes "50000 < t" "t \<le> 100000"
  shows "num_add (Fin 5000) (num_mul (num_sub (Fin t) (Fin 50000)) (Fin (rnd (20 / 100))))
     = Fin (rnd (5000 + rnd (rnd (t - 50000) * rnd (20 / 100))))"
proof -
  define n where "n = rnd (t - 50000)"
  define p where "p = rnd (n * rnd (20 / 100))"
  have n: "0 \<le> n" "n \<le> 50000"
    using rnd_nonneg[of "t - 50000"] rnd_mono[of "t - 50000" 50000] assms
    by (simp_all add: n_def rnd_numeral)
  have 1: "num_sub (Fin t) (Fin 50000) = Fin n"
    unfolding n_def using assms by (intro num_sub_Fin small_le_abs) auto
  have "n * rnd (20 / 100) \<le> 50000 * 1" using n unfolding d_consts
    by (intro mult_mono) simp_all
  moreover have n0: "0 \<le> n * rnd (20 / 100)" using n unfolding d_consts by simp
  ultimately have 2: "num_mul (Fin n) (Fin (rnd (20 / 100))) = Fin p"
    unfolding p_def num_mul.simps by (intro round_result_small) simp
  have p: "0 \<le> p" "p \<le> 50000"
    using rnd_nonneg[OF n0] rnd_mono[of "n * rnd (20 / 100)" 50000] \<open>n * rnd (20 / 100) \<le> 50000 * 1\<close>
    by (simp_all add: p_def rnd_numeral)
  have 3: "num_add (Fin 5000) (Fin p) = Fin (rnd (5000 + p))"
    unfolding num_add.simps using p by (intro round_result_small) simp
  show ?thesis by (simp only: 1 2 3, simp only: p_def n_def)
qed

lemma bracket3_fin:
  assumes "100000 < t" "t \<le> max_double"
  shows "num_add (Fin 15000) (num_mul (num_sub (Fin t) (Fin 100000)) (Fin (rnd (30 / 100))))
     = Fin (rnd (15000 + rnd (rnd (t - 100000) * rnd (30 / 100))))"
proof -
  define n where "n = rnd (t - 100000)"
  define p where "p = rnd (n * rnd (30 / 100))"
  have n: "0 \<le> n" "n \<le> max_double"
    using rnd_nonneg[of "t - 100000"] rnd_le_max_double[of "t - 100000"] assms
    by (simp_all add: n_def)
  have 1: "num_sub (Fin t) (Fin 100000) = Fin n"
    unfolding n_def using assms by (intro num_sub_Fin) simp
  have "n * rnd (30 / 100) \<le> max_double * (1 / 2)" using n unfolding d_consts
    by (intro mult_mono) simp_all
  also note big_bounds(1)
  finally have le: "n * rnd (30 / 100) \<le> big" .
  have n0: "0 \<le> n * rnd (30 / 100)" using n unfolding d_consts by simp
  have "n * rnd (30 / 100) \<le> max_double" using le big_bounds(2) by linarith
  then have 2: "num_mul (Fin n) (Fin (rnd (30 / 100))) = Fin p"
    unfolding p_def num_mul.simps using n0 by (intro round_result_Fin) simp
  have p: "0 \<le> p" "p \<le> big"
    using rnd_nonneg[OF n0] rnd_mono[OF le] by (simp_all add: p_def rnd_big)
  have "15000 + p \<le> max_double" using p(2) big_bounds(3) by linarith
  then have 3: "num_add (Fin 15000) (Fin p) = Fin (rnd (15000 + p))"
    unfolding num_add.simps using p(1) by (intro round_result_Fin) simp
  show ?thesis by (simp only: 1 2 3, simp only: p_def n_def)
qed

lemma taxable_fin_bounds:
  assumes "0 \<le> i" "i \<le> max_double" "0 \<le> d" "d \<le> max_double"
  shows "num_sub (Fin i) (Fin d) = Fin (rnd (i - d))"
    and "0 \<le> taxable_fin i d" and "taxable_fin i d \<le> max_double"
proof -
  show "num_sub (Fin i) (Fin d) = Fin (rnd (i - d))"
    using assms by (intro num_sub_Fin) simp
  show "0 \<le> taxable_fin i d" by (simp add: taxable_fin_def)
  have "rnd (i - d) \<le> max_double" using assms by (intro rnd_le_max_double) simp
  then show "taxable_fin i d \<le> max_double"
    using assms by (simp add: taxable_fin_def)
qed

lemma tax_body_fin:
  assumes "0 \<le> t" "t \<le> max_double"
  shows "(if num_le (Fin t) (Fin 50000) then num_mul (Fin t) (Fin (rnd (10 / 100)))
          else if num_le (Fin t) (Fin 100000) then
            num_add (Fin 5000) (num_mul (num_sub (Fin t) (Fin 50000)) (Fin (rnd (20 / 100))))
          else
            num_add (Fin 15000) (num_mul (num_sub (Fin t) (Fin 100000)) (Fin (rnd (30 / 100)))))
         = Fin (tax_fin t)"
proof -
  consider "t \<le> 50000" | "50000 < t" "t \<le> 100000" | "100000 < t" by linarith
  then show ?thesis
  proof cases
    case 1
    then show ?thesis using bracket1_fin[OF assms] by (simp add: tax_fin_def)
  next
    case 2
    then show ?thesis using bracket2_fin[OF 2] by (simp add: tax_fin_def)
  next
    case 3
    then show ?thesis using bracket3_fin[OF 3 assms(2)] by (simp add: tax_fin_def)
  qed
qed

lemma calculateEstimatedTax_fin:
  assumes "0 \<le> i" "i \<le> max_double" "0 \<le> d" "d \<le> max_double"
  shows "calculateEstimatedTax (Fin i) (Fin d) = Fin (of_int (round (tax_fin (taxable_fin i d))))"
proof -
  note b = taxable_fin_bounds[OF assms]
  have t: "Math_max (lit 0) (num_sub (Fin i) (Fin d)) = Fin (taxable_fin i d)"
    by (simp add: b(1) lit_consts Math_max_Fin taxable_fin_def)
  show ?thesis
    unfolding calculateEstimatedTax_def Let_def t
    unfolding lit_consts(2-5) lit_consts(6-8)[unfolded d_consts[symmetric]]
    unfolding tax_body_fin[OF b(2,3)] by simp
qed

subsection \<open>Monotonicity\<close>

lemma tax_fin_mono:
  assumes "0 \<le> s" "s \<le> t"
  shows "tax_fin s \<le> tax_fin t"
proof -
  have d: "0 \<le> rnd (10 / 100)" "0 \<le> rnd (20 / 100)" "0 \<le> rnd (30 / 100)"
    unfolding d_consts by simp_all
  have lo2: "5000 \<le> rnd (5000 + rnd (rnd (x - 50000) * rnd (20 / 100)))" if "50000 \<le> x" for x
  proof -
    have "0 \<le> rnd (x - 50000)" using that by (intro rnd_nonneg) simp
    then have "0 \<le> rnd (rnd (x - 50000) * rnd (20 / 100))" using d by (intro rnd_nonneg) simp
    then have "rnd 5000 \<le> rnd (5000 + rnd (rnd (x - 50000) * rnd (20 / 100)))"
      by (intro rnd_mono) simp
    then show ?thesis by (simp add: rnd_numeral)
  qed
  have lo3: "15000 \<le> rnd (15000 + rnd (rnd (x - 100000) * rnd (30 / 100)))" if "100000 \<le> x" for x
  proof -
    have "0 \<le> rnd (x - 100000)" using that by (intro rnd_nonneg) simp
    then have "0 \<le> rnd (rnd (x - 100000) * rnd (30 / 100))" using d by (intro rnd_nonneg) simp
    then have "rnd 15000 \<le> rnd (15000 + rnd (rnd (x - 100000) * rnd (30 / 100)))"
      by (intro rnd_mono) simp
    then show ?thesis by (simp add: rnd_numeral)
  qed
  have hi1: "rnd (x * rnd (10 / 100)) \<le> 5000" if "x \<le> 50000" for x
  proof -
    have "x * rnd (10 / 100) \<le> 50000 * rnd (10 / 100)" using that d by (intro mult_right_mono)
    then have "rnd (x * rnd (10 / 100)) \<le> rnd (50000 * rnd (10 / 100))" by (rule rnd_mono)
    then show ?thesis unfolding d_consts rnd_5000 .
  qed
  have hi2: "rnd (5000 + rnd (rnd (x - 50000) * rnd (20 / 100))) \<le> 15000" if "x \<le> 100000" for x
  proof -
    have "rnd (x - 50000) \<le> rnd 50000" using that by (intro rnd_mono) simp
    then have "rnd (x - 50000) * rnd (20 / 100) \<le> 50000 * rnd (20 / 100)"
      using d by (intro mult_right_mono) (simp_all add: rnd_numeral)
    then have "rnd (rnd (x - 50000) * rnd (20 / 100)) \<le> rnd (50000 * rnd (20 / 100))"
      by (rule rnd_mono)
    then have "rnd (rnd (x - 50000) * rnd (20 / 100)) \<le> 10000" unfolding d_consts rnd_10000 .
    then have "rnd (5000 + rnd (rnd (x - 50000) * rnd (20 / 100))) \<le> rnd 15000"
      by (intro rnd_mono) simp
    then show ?thesis by (simp add: rnd_numeral)
  qed
  consider "t \<le> 50000" | "s \<le> 50000" "50000 < t" "t \<le> 100000" | "s \<le> 50000" "100000 < t"
    | "50000 < s" "t \<le> 100000" | "50000 < s" "s \<le> 100000" "100000 < t" | "100000 < s"
    using assms by linarith
  then show ?thesis
  proof cases
    case 1
    then have "s \<le> 50000" using assms by simp
    moreover have "rnd (s * rnd (10 / 100)) \<le> rnd (t * rnd (10 / 100))"
      using assms d by (intro rnd_mono mult_right_mono)
    ultimately show ?thesis using 1 by (simp add: tax_fin_def)
  next
    case 2
    then show ?thesis using hi1[of s] lo2[of t] by (simp add: tax_fin_def)
  next
    case 3
    then show ?thesis using hi1[of s] lo3[of t] by (simp add: tax_fin_def)
  next
    case 4
    have "rnd (5000 + rnd (rnd (s - 50000) * rnd (20 / 100)))
        \<le> rnd (5000 + rnd (rnd (t - 50000) * rnd (20 / 100)))"
      using assms d by (intro rnd_mono add_left_mono mult_right_mono) simp_all
    then show ?thesis using 4 assms by (simp add: tax_fin_def)
  next
    case 5
    then show ?thesis using hi2[of s] lo3[of t] by (simp add: tax_fin_def)
  next
    case 6
    have "rnd (15000 + rnd (rnd (s - 100000) * rnd (30 / 100)))
        \<le> rnd (15000 + rnd (rnd (t - 100000) * rnd (30 / 100)))"
      using assms d by (intro rnd_mono add_left_mono mult_right_mono) simp_all
    then show ?thesis using 6 assms by (simp add: tax_fin_def)
  qed
qed

lemma taxable_fin_mono:
  "i1 \<le> i2 \<Longrightarrow> taxable_fin i1 d \<le> taxable_fin i2 d"
  "d1 \<le> d2 \<Longrightarrow> taxable_fin i d2 \<le> taxable_fin i d1"
  using rnd_mono[of "i1 - d" "i2 - d"] rnd_mono[of "i - d2" "i - d1"]
  by (simp_all add: taxable_fin_def max_def)

subsection \<open>The rounded products against the exact formula\<close>

text \<open>
  A tenth of an integer lies between \<open>m - 1/2\<close> and \<open>m + 4/10\<close> for the integer \<open>m\<close> it
  rounds to. Below \<open>10^15\<close> the error of a product with a rounded rate is less than
  \<open>3/80\<close>, so the product stays between \<open>m - 1/2\<close> and \<open>m + 7/16\<close>, two representable
  values, and so does its rounding. The products at 10 and 20 percent err upwards; the
  one at 30 percent errs downwards, and when the exact value is the half \<open>m - 1/2\<close> it
  is rounded back to that half.
\<close>

lemma round_sandwich:
  assumes "of_int m - 1 / 2 \<le> y" "y \<le> of_int m + 7 / 16"
  shows "round y = m"
  unfolding round_def
proof (rule floor_unique)
  show "of_int m \<le> y + 1 / 2" using assms(1) by linarith
  show "y + 1 / 2 < of_int m + 1" using assms(2) by linarith
qed

lemma rnd_sandwich:
  assumes "\<bar>m\<bar> < 2 ^ 49" "of_int m - 1 / 2 \<le> x" "x \<le> of_int m + 7 / 16"
  shows "of_int m - 1 / 2 \<le> rnd x" "rnd x \<le> of_int m + 7 / 16"
proof -
  have "\<bar>2 * m - 1\<bar> < 2 ^ 53" using assms(1) by simp
  from rnd_dyadic[OF this, of 1]
  have lo: "rnd (of_int m - 1 / 2) = of_int m - 1 / 2" by (simp add: field_simps)
  have "\<bar>16 * m + 7\<bar> < 2 ^ 53" using assms(1) by simp
  from rnd_dyadic[OF this, of 4]
  have hi: "rnd (of_int m + 7 / 16) = of_int m + 7 / 16" by (simp add: field_simps)
  show "of_int m - 1 / 2 \<le> rnd x" using rnd_mono[OF assms(2)] by (simp only: lo)
  show "rnd x \<le> of_int m + 7 / 16" using rnd_mono[OF assms(3)] by (simp only: hi)
qed

lemma round_tenths_eq: "round (of_int k / 10 :: rat) = (k + 5) div 10"
proof -
  have "(of_int k / 10 + 1 / 2 :: rat) = of_int (k + 5) / of_int 10" by simp
  then show ?thesis unfolding round_def by (simp only: floor_divide_of_int_eq)
qed

lemma round_tenths:
  fixes k m :: int
  assumes "m = round (of_int k / 10 :: rat)"
  shows "of_int m - 1 / 2 \<le> (of_int k / 10 :: rat)"
    and "(of_int k / 10 :: rat) \<le> of_int m + 4 / 10"
    and "(k + 5) mod 10 \<noteq> 0 \<Longrightarrow> of_int m - 4 / 10 \<le> (of_int k / 10 :: rat)"
    and "(k + 5) mod 10 = 0 \<Longrightarrow> (of_int k / 10 :: rat) = of_int m - 1 / 2"
proof -
  define r where "r = (k + 5) mod 10"
  have m: "m = (k + 5) div 10" using assms by (simp only: round_tenths_eq)
  have "k + 5 = 10 * ((k + 5) div 10) + (k + 5) mod 10" by simp
  then have "k = 10 * m + r - 5" unfolding m r_def by linarith
  then have "(of_int k :: rat) = of_int (10 * m + r - 5)" by (simp only:)
  then have k: "(of_int k :: rat) = 10 * of_int m + of_int r - 5" by simp
  have "0 \<le> r" "r \<le> 9" by (simp_all add: r_def) 
  then have r': "(0::rat) \<le> of_int r" "(of_int r :: rat) \<le> 9" by simp_all
  show "of_int m - 1 / 2 \<le> (of_int k / 10 :: rat)" using r' unfolding k by simp
  show "(of_int k / 10 :: rat) \<le> of_int m + 4 / 10" using r' unfolding k by simp
  show "of_int m - 4 / 10 \<le> (of_int k / 10 :: rat)" if "(k + 5) mod 10 \<noteq> 0"
  proof -
    have "1 \<le> r" using that \<open>0 \<le> r\<close> unfolding r_def by linarith
    then have "(1::rat) \<le> of_int r" by simp
    then show ?thesis unfolding k by simp
  qed
  show "(of_int k / 10 :: rat) = of_int m - 1 / 2" if "(k + 5) mod 10 = 0"
  proof -
    have "r = 0" using that by (simp only: r_def)
    then show ?thesis unfolding k by simp
  qed
qed

lemma rnd_half_below:
  fixes m :: int
  assumes m: "2 \<le> m" "m < 2 ^ 52"
    and q: "q = of_int m - 1 / 2"
    and x: "q - q / (3 * 2 ^ 53) \<le> x" "x \<le> q"
  shows "rnd x = q"
proof -
  define e where "e = expo q"
  define u :: rat where "u = 2 powi (e - 52)"
  define K where "K = (2 * m - 1) * 2 ^ nat (51 - e)"
  have m': "(2::rat) \<le> of_int m" "(of_int m :: rat) < of_int (2 ^ 52)"
    using m by (simp_all only: of_int_le_iff of_int_less_iff of_int_numeral)
  have q1: "1 \<le> q" and q52: "q < 2 ^ 52" using m' by (simp_all add: q)
  have q0: "q \<noteq> 0" and qabs: "\<bar>q\<bar> = q" using q1 by simp_all
  from expo_bounds[OF q0] have b: "2 powi e \<le> q" "q < 2 powi (e + 1)"
    by (simp_all add: e_def qabs)
  have "(2::rat) powi 0 < 2 powi (e + 1)" using q1 b(2) by simp
  then have "0 < e + 1" by (simp only: p2_less_iff)
  then have e0: "0 \<le> e" by simp
  have "(2::rat) powi e < 2 powi 52" using b(1) q52 by simp
  then have "e < 52" by (simp only: p2_less_iff)
  then have e51: "e \<le> 51" by simp
  have pe: "(2::rat) powi e = of_int (2 ^ nat e)" using e0 by (simp add: power_int_def)
  have "(of_int (2 ^ nat e) :: rat) < of_int m" using b(1) unfolding pe q by linarith
  then have "2 ^ nat e < m" by (simp only: of_int_less_iff)
  then have "2 ^ nat e + 1 \<le> m" by simp
  then have "(of_int (2 ^ nat e + 1) :: rat) \<le> of_int m" by (simp only: of_int_le_iff)
  then have qlo: "2 powi e + 1 / 2 \<le> q" unfolding pe q by simp
  have sixth: "q / (3 * 2 ^ 53) < 1 / 6" using q52 by simp
  have xlo: "2 powi e \<le> x" using qlo sixth x(1) by linarith
  have xpos: "0 < x" using xlo p2_pos[of e] by linarith
  have upos: "0 < u" by (simp add: u_def)
  have "(2::rat) powi (52 - e) = 2 powi 1 * 2 powi (51 - e)"
    by (subst power_int_add[symmetric]) simp_all
  also have "(2::rat) powi (51 - e) = of_int (2 ^ nat (51 - e))"
    using e51 by (simp add: power_int_def)
  finally have p52: "(2::rat) powi (52 - e) = 2 * of_int (2 ^ nat (51 - e))" by simp
  have "1 / u = 2 powi (52 - e)"
    unfolding u_def using power_int_minus[of "2::rat" "e - 52"] by (simp add: field_simps)
  then have inv: "1 / u = 2 * of_int (2 ^ nat (51 - e))" by (simp only: p52)
  have "q / u = q * (1 / u)" by simp
  also have "\<dots> = (of_int m - 1 / 2) * (2 * of_int (2 ^ nat (51 - e)))"
    by (simp only: inv q)
  also have "\<dots> = of_int K" unfolding K_def by (simp add: algebra_simps)
  finally have qu: "q / u = of_int K" .
  have "q / u < 2 powi (e + 1) / u" using b(2) upos by (simp add: divide_strict_right_mono)
  also have "2 powi (e + 1) / u = 2 ^ 53"
    unfolding u_def using p2_shift53[of e] by (simp add: field_simps)
  finally have K53: "(of_int K :: rat) < 2 ^ 53" by (simp only: qu)
  have "x / u - of_int K = (x - q) / u" unfolding qu[symmetric] by (simp add: diff_divide_distrib)
  moreover have "(x - q) / u \<le> 0" using x(2) upos by (simp add: divide_le_0_iff)
  moreover have "- (q / (3 * 2 ^ 53)) / u \<le> (x - q) / u"
    using x(1) upos by (intro divide_right_mono) simp_all
  moreover have "- (q / (3 * 2 ^ 53)) / u = - (of_int K / (3 * 2 ^ 53))"
    unfolding qu[symmetric] by simp
  moreover have "of_int K / (3 * 2 ^ 53) < (1 / 3 :: rat)" using K53 by simp
  ultimately have near: "\<bar>x / u - of_int K\<bar> < 1 / 2" by linarith
  have "rnd x = of_int K * 2 powi (e - 52)"
  proof (rule rnd_eqI)
    show "2 powi e \<le> \<bar>x\<bar>" using xlo xpos by simp
    show "\<bar>x\<bar> < 2 powi (e + 1)" using x(2) b(2) xpos by simp
    show "- 1022 \<le> e" using e0 by simp
    show "\<bar>x / 2 powi (e - 52) - of_int K\<bar> < 1 / 2" using near by (simp only: u_def)
  qed
  also have "\<dots> = q" using qu upos unfolding u_def by (simp add: field_simps)
  finally show ?thesis .
qed

lemma tiny_bound: "n \<le> 10 ^ 15 \<Longrightarrow> (of_int n :: rat) / (5 * 2 ^ 54) \<le> 3 / 80" for n :: int
proof -
  assume "n \<le> 10 ^ 15"
  then have "(of_int n :: rat) \<le> of_int (10 ^ 15)" by (simp only: of_int_le_iff)
  then show ?thesis by simp
qed

lemma prod_sandwich_up:
  fixes n c m :: int and dc :: rat
  assumes n: "0 \<le> n" "n \<le> 10 ^ 15" and c: "0 \<le> c" "c \<le> 3"
    and m: "m = round (of_int (c * n) / 10 :: rat)"
    and dc: "of_int c / 10 \<le> dc" "dc \<le> of_int c / 10 + 1 / (5 * 2 ^ 54)"
  shows "0 \<le> m \<and> m \<le> 3 * 10 ^ 14"
    and "of_int m - 1 / 2 \<le> rnd (of_int n * dc)"
    and "rnd (of_int n * dc) \<le> of_int m + 7 / 16"
proof -
  define q :: rat where "q = of_int (c * n) / 10"
  note t = round_tenths[OF m]
  have n': "(0::rat) \<le> of_int n" using n by simp
  have "0 \<le> c * n" using n c by simp
  moreover have "c * n \<le> 3 * 10 ^ 15" using mult_mono[of c 3 n "10 ^ 15"] n c by simp
  ultimately have "0 \<le> (c * n + 5) div 10" "(c * n + 5) div 10 \<le> (3 * 10 ^ 15 + 5) div 10"
    by (simp, intro zdiv_mono1) simp_all
  then show mr: "0 \<le> m \<and> m \<le> 3 * 10 ^ 14" unfolding m round_tenths_eq by simp
  have "q = of_int n * (of_int c / 10)" by (simp add: q_def)
  also have "\<dots> \<le> of_int n * dc" using n' dc(1) by (rule mult_left_mono[rotated])
  finally have lo: "of_int m - 1 / 2 \<le> of_int n * dc" using t(1) unfolding q_def by linarith
  have "of_int n * dc \<le> of_int n * (of_int c / 10 + 1 / (5 * 2 ^ 54))"
    using n' dc(2) by (rule mult_left_mono[rotated])
  also have "\<dots> = q + of_int n / (5 * 2 ^ 54)" by (simp add: q_def algebra_simps)
  also have "\<dots> \<le> of_int m + 4 / 10 + 3 / 80"
    using t(2) tiny_bound[OF n(2)] unfolding q_def by linarith
  finally have hi: "of_int n * dc \<le> of_int m + 7 / 16" by simp
  have mb': "\<bar>m\<bar> < 2 ^ 49" using mr by simp
  show "of_int m - 1 / 2 \<le> rnd (of_int n * dc)" using mb' lo hi by (rule rnd_sandwich)
  show "rnd (of_int n * dc) \<le> of_int m + 7 / 16" using mb' lo hi by (rule rnd_sandwich)
qed

lemma prod_sandwich_down:
  fixes n m :: int
  assumes n: "1 \<le> n" "n \<le> 10 ^ 15"
    and m: "m = round (of_int (3 * n) / 10 :: rat)"
  shows "0 \<le> m \<and> m \<le> 3 * 10 ^ 14"
    and "of_int m - 1 / 2 \<le> rnd (of_int n * rnd (30 / 100))"
    and "rnd (of_int n * rnd (30 / 100)) \<le> of_int m + 7 / 16"
proof -
  define q :: rat where "q = of_int (3 * n) / 10"
  define x :: rat where "x = of_int n * rnd (30 / 100)"
  note t = round_tenths[OF m]
  have n': "(1::rat) \<le> of_int n" using n by simp
  have "0 \<le> 3 * n" "3 * n \<le> 3 * 10 ^ 15" using n by simp_all
  then have "0 \<le> (3 * n + 5) div 10" "(3 * n + 5) div 10 \<le> (3 * 10 ^ 15 + 5) div 10"
    by (simp, intro zdiv_mono1) simp_all
  then show mr: "0 \<le> m \<and> m \<le> 3 * 10 ^ 14" unfolding m round_tenths_eq by simp
  then have mb': "\<bar>m\<bar> < 2 ^ 49" by simp
  have xq: "x = q - q / (3 * 2 ^ 53)" unfolding x_def q_def d_consts by simp
  have qpos: "0 \<le> q" using n' by (simp add: q_def)
  have "q / (3 * 2 ^ 53) = of_int n / (5 * 2 ^ 54)" by (simp add: q_def)
  then have small: "q / (3 * 2 ^ 53) \<le> 3 / 80" using tiny_bound[OF n(2)] by simp
  have xle: "x \<le> q" unfolding xq using qpos by simp
  have hi: "x \<le> of_int m + 7 / 16" using xle t(2) unfolding q_def by linarith
  have "of_int m - 1 / 2 \<le> rnd x \<and> rnd x \<le> of_int m + 7 / 16"
  proof (cases "(3 * n + 5) mod 10 = 0")
    case True
    then have qm: "q = of_int m - 1 / 2" unfolding q_def by (rule t(4))
    have "m = (3 * n + 5) div 10" unfolding m by (rule round_tenths_eq)
    with True n(1) have "2 \<le> m" by presburger
    moreover have "m < 2 ^ 52" using mr by simp
    ultimately have "rnd x = q" using qm
    proof (rule rnd_half_below)
      show "q - q / (3 * 2 ^ 53) \<le> x" by (simp only: xq)
      show "x \<le> q" by (rule xle)
    qed
    then show ?thesis by (simp add: qm)
  next
    case False
    then have "of_int m - 4 / 10 \<le> q" unfolding q_def by (rule t(3))
    then have lo: "of_int m - 1 / 2 \<le> x" unfolding xq using small by linarith
    show ?thesis using rnd_sandwich[OF mb' lo hi] by simp
  qed
  then show "of_int m - 1 / 2 \<le> rnd (of_int n * rnd (30 / 100))"
    and "rnd (of_int n * rnd (30 / 100)) \<le> of_int m + 7 / 16"
    by (simp_all add: x_def)
qed

lemma d_bounds:
  "of_int 1 / 10 \<le> rnd (10 / 100)" "rnd (10 / 100) \<le> of_int 1 / 10 + 1 / (5 * 2 ^ 54)"
  "of_int 2 / 10 \<le> rnd (20 / 100)" "rnd (20 / 100) \<le> of_int 2 / 10 + 1 / (5 * 2 ^ 54)"
  unfolding d_consts by simp_all

lemma tax_fin_exact:
  fixes t :: int
  assumes "0 \<le> t" "t \<le> 10 ^ 15"
  shows "round (tax_fin (of_int t)) = spec_taxOwed t 0"
proof -
  consider "t \<le> 50000" | "50000 < t" "t \<le> 100000" | "100000 < t" by linarith
  then show ?thesis
  proof cases
    case 1
    define m where "m = round (of_int (1 * t) / 10 :: rat)"
    note s = prod_sandwich_up[OF assms _ _ m_def d_bounds(1,2)]
    have "round (rnd (of_int t * rnd (10 / 100))) = m"
      using s(2,3) by (intro round_sandwich) simp_all
    moreover have "\<lfloor>of_int t * (10 / 100) + 1 / 2 :: rat\<rfloor> = m"
      unfolding m_def round_def by simp
    ultimately show ?thesis using 1 assms by (simp add: tax_fin_def spec_taxOwed_def)
  next
    case 2
    define n where "n = t - 50000"
    define m where "m = round (of_int (2 * n) / 10 :: rat)"
    have n: "0 \<le> n" "n \<le> 10 ^ 15" using 2 by (simp_all add: n_def)
    note s = prod_sandwich_up[OF n _ _ m_def d_bounds(3,4)]
    note q = round_tenths[OF m_def]
    have mr: "0 \<le> m \<and> m \<le> 3 * 10 ^ 14" using s(1) by simp
    have tn: "(of_int t :: rat) - 50000 = of_int n" by (simp add: n_def)
    have "rnd (of_int n) = (of_int n :: rat)" using n by (intro rnd_of_int) simp
    then have f: "tax_fin (of_int t) = rnd (5000 + rnd (of_int n * rnd (20 / 100)))"
      using 2 by (simp add: tax_fin_def tn)
    have M: "\<bar>5000 + m\<bar> < 2 ^ 49" using mr by simp
    have lo: "of_int (5000 + m) - 1 / 2 \<le> 5000 + rnd (of_int n * rnd (20 / 100))"
      using s(2) by simp
    have hi: "5000 + rnd (of_int n * rnd (20 / 100)) \<le> of_int (5000 + m) + 7 / 16"
      using s(3) by simp
    have "round (tax_fin (of_int t)) = 5000 + m"
      unfolding f using rnd_sandwich[OF M lo hi] by (intro round_sandwich)
    moreover have "\<lfloor>50000 * (10 / 100) + (of_int t - 50000) * (20 / 100) + 1 / 2 :: rat\<rfloor> = 5000 + m"
    proof -
      have "(50000 * (10 / 100) + (of_int t - 50000) * (20 / 100) :: rat) = 5000 + of_int (2 * n) / 10"
        by (simp add: tn)
      moreover have "round (5000 + of_int (2 * n) / 10 :: rat) = 5000 + m"
        using q(1,2) by (intro round_sandwich) simp_all
      ultimately show ?thesis by (simp only: round_def)
    qed
    ultimately show ?thesis using 2 assms by (simp add: spec_taxOwed_def)
  next
    case 3
    define n where "n = t - 100000"
    define m where "m = round (of_int (3 * n) / 10 :: rat)"
    have n: "1 \<le> n" "n \<le> 10 ^ 15" using 3 assms by (simp_all add: n_def)
    note s = prod_sandwich_down[OF n m_def]
    note q = round_tenths[OF m_def]
    have mr: "0 \<le> m \<and> m \<le> 3 * 10 ^ 14" using s(1) by simp
    have tn: "(of_int t :: rat) - 100000 = of_int n" by (simp add: n_def)
    have "rnd (of_int n) = (of_int n :: rat)" using n by (intro rnd_of_int) simp
    then have f: "tax_fin (of_int t) = rnd (15000 + rnd (of_int n * rnd (30 / 100)))"
      using 3 by (simp add: tax_fin_def tn)
    have M: "\<bar>15000 + m\<bar> < 2 ^ 49" using mr by simp
    have lo: "of_int (15000 + m) - 1 / 2 \<le> 15000 + rnd (of_int n * rnd (30 / 100))"
      using s(2) by simp
    have hi: "15000 + rnd (of_int n * rnd (30 / 100)) \<le> of_int (15000 + m) + 7 / 16"
      using s(3) by simp
    have "round (tax_fin (of_int t)) = 15000 + m"
      unfolding f using rnd_sandwich[OF M lo hi] by (intro round_sandwich)
    moreover have "\<lfloor>50000 * (10 / 100) + 50000 * (20 / 100) + (of_int t - 100000) * (30 / 100) + 1 / 2 :: rat\<rfloor>
        = 15000 + m"
    proof -
      have "(50000 * (10 / 100) + 50000 * (20 / 100) + (of_int t - 100000) * (30 / 100) :: rat)
          = 15000 + of_int (3 * n) / 10"
        by (simp add: tn)
      moreover have "round (15000 + of_int (3 * n) / 10 :: rat) = 15000 + m"
        using q(1,2) by (intro round_sandwich) simp_all
      ultimately show ?thesis by (simp only: round_def)
    qed
    ultimately show ?thesis using 3 assms by (simp add: spec_taxOwed_def)
  qed
qed

lemma spec_taxOwed_taxable: "spec_taxOwed i d = spec_taxOwed (max 0 (i - d)) 0"
  by (simp add: spec_taxOwed_def)

lemma taxable_fin_of_int:
  fixes i d :: int
  assumes "0 \<le> i" "i \<le> 10 ^ 15" "0 \<le> d" "d \<le> 10 ^ 15"
  shows "taxable_fin (of_int i) (of_int d) = of_int (max 0 (i - d))"
proof -
  have "rnd (of_int (i - d)) = (of_int (i - d) :: rat)" using assms by (intro rnd_of_int) simp
  then show ?thesis by (simp add: taxable_fin_def max_def)
qed

lemma estimate_eq_progressive:
  "calculateEstimatedTax i d = calculateProgressiveTax (Math_max (lit 0) (num_sub i d))"
  unfolding calculateEstimatedTax_def calculateProgressiveTax_def Let_def
  by (simp only: lit_consts folded_consts)

lemma int_le_max_double: "i \<le> 10 ^ 15 \<Longrightarrow> (of_int i :: rat) \<le> max_double" for i :: int
proof -
  assume "i \<le> 10 ^ 15"
  then have "(of_int i :: rat) \<le> of_int (10 ^ 15)" by (simp only: of_int_le_iff)
  also have "\<dots> \<le> 2 ^ 53" by simp
  finally show ?thesis using two53_le_max_double by linarith
qed

subsection \<open>The tax formula\<close>

text \<open>
  Claim C1, with the range of the inputs made explicit. For all integers \<open>i\<close> (income)
  and \<open>d\<close> (deductions) from \<open>0\<close> to \<open>10^15\<close>, the tax engine, applied as the result view
  applies it to the taxable income \<open>Math.max(0, i - d)\<close>, returns the value of the
  specification: 10 percent of the taxable income up to 50000, 5000 plus 20 percent of
  the part above 50000 up to 100000, 15000 plus 30 percent of the part above 100000,
  rounded to the nearest integer, a half going up.
\<close>

theorem progressive_tax_formula:
  fixes i d :: int
  assumes "0 \<le> i" "i \<le> 10 ^ 15" "0 \<le> d" "d \<le> 10 ^ 15"
  shows "calculateProgressiveTax (Math_max (lit 0) (num_sub (Fin (of_int i)) (Fin (of_int d))))
     = Fin (of_int (spec_taxOwed i d))"
proof -
  have "calculateEstimatedTax (Fin (of_int i)) (Fin (of_int d))
      = Fin (of_int (round (tax_fin (taxable_fin (of_int i) (of_int d)))))"
    using assms by (intro calculateEstimatedTax_fin int_le_max_double) simp_all
  also have "round (tax_fin (taxable_fin (of_int i) (of_int d))) = spec_taxOwed (max 0 (i - d)) 0"
    unfolding taxable_fin_of_int[OF assms] using assms by (intro tax_fin_exact) simp_all
  finally show ?thesis
    by (simp only: estimate_eq_progressive[symmetric] spec_taxOwed_taxable[symmetric])
qed

lemma spec_values:
  "spec_taxOwed 150000 25000 = 22500" "spec_taxOwed 100005 0 = 15002" "spec_taxOwed 5 0 = 1"
  "spec_taxOwed 20000 30000 = 0"
  by code_simp+

theorem progressive_tax_formula_witness:
  "calculateProgressiveTax (Math_max (lit 0) (num_sub (Fin 150000) (Fin 25000))) = Fin 22500
   \<and> calculateProgressiveTax (Math_max (lit 0) (num_sub (Fin 100005) (Fin 0))) = Fin 15002
   \<and> calculateProgressiveTax (Math_max (lit 0) (num_sub (Fin 5) (Fin 0))) = Fin 1
   \<and> calculateProgressiveTax (Math_max (lit 0) (num_sub (Fin 20000) (Fin 30000))) = Fin 0"
  using progressive_tax_formula[of 150000 25000] progressive_tax_formula[of 100005 0]
    progressive_tax_formula[of 5 0] progressive_tax_formula[of 20000 30000]
  by (simp add: spec_values)

lemma cex_fin: "round (tax_fin (taxable_fin 8000000000000008 0)) = 2399999999985003"
  by code_simp

lemma cex_spec: "spec_taxOwed 8000000000000008 0 = 2399999999985002"
  by code_simp

lemma small_le_max: "x \<le> 2 ^ 53 \<Longrightarrow> x \<le> max_double"
  using two53_le_max_double by linarith

text \<open>
  Without a bound on the inputs the statement of C1 fails: at the income
  \<open>8000000000000008\<close>, an integer below \<open>2^53\<close>, with no deductions, the exact formula
  gives \<open>2399999999985002.4\<close>, which rounds to \<open>2399999999985002\<close>, and the engine
  returns \<open>2399999999985003\<close>: the product \<open>7999999999900008 * 0.30\<close> is rounded to a
  multiple of \<open>1/2\<close>.
\<close>

theorem progressive_tax_formula_counterexample:
  "calculateProgressiveTax (Math_max (lit 0) (num_sub (Fin 8000000000000008) (Fin 0)))
     = Fin 2399999999985003
   \<and> spec_taxOwed 8000000000000008 0 = 2399999999985002
   \<and> calculateProgressiveTax (Math_max (lit 0) (num_sub (Fin 8000000000000008) (Fin 0)))
     \<noteq> Fin (of_int (spec_taxOwed 8000000000000008 0))"
proof -
  have "calculateEstimatedTax (Fin 8000000000000008) (Fin 0)
      = Fin (of_int (round (tax_fin (taxable_fin 8000000000000008 0))))"
    by (intro calculateEstimatedTax_fin small_le_max) simp_all
  then have "calculateProgressiveTax (Math_max (lit 0) (num_sub (Fin 8000000000000008) (Fin 0)))
     = Fin 2399999999985003"
    by (simp only: estimate_eq_progressive cex_fin of_int_numeral)
  then show ?thesis by (simp add: cex_spec)
qed

subsection \<open>Boundary values and presets\<close>

lemma values_fin:
  "round (tax_fin (taxable_fin 50000 0)) = 5000"
  "round (tax_fin (taxable_fin 100000 0)) = 15000"
  "round (tax_fin (taxable_fin 150000 25000)) = 22500"
  "round (tax_fin (taxable_fin 75000 12000)) = 7600"
  "round (tax_fin (taxable_fin 30000 5000)) = 2500"
  by code_simp+

lemma taxable_values:
  "taxable_fin 75000 12000 = 63000" "taxable_fin 150000 25000 = 125000"
  "taxable_fin 30000 5000 = 25000"
  by code_simp+

lemma taxableIncome_fin:
  assumes "0 \<le> i" "i \<le> max_double" "0 \<le> d" "d \<le> max_double"
  shows "Math_max (lit 0) (num_sub (Fin i) (Fin d)) = Fin (taxable_fin i d)"
  using taxable_fin_bounds(1)[OF assms]
  by (simp add: lit_consts Math_max_Fin taxable_fin_def)

lemma estimate_value:
  assumes "0 \<le> i" "i \<le> 2 ^ 53" "0 \<le> d" "d \<le> 2 ^ 53"
    and "round (tax_fin (taxable_fin i d)) = v"
  shows "calculateEstimatedTax (Fin i) (Fin d) = Fin (of_int v)"
  using calculateEstimatedTax_fin[of i d] assms small_le_max by simp

lemma taxable_value:
  assumes "0 \<le> i" "i \<le> 2 ^ 53" "0 \<le> d" "d \<le> 2 ^ 53"
    and "taxable_fin i d = v"
  shows "Math_max (lit 0) (num_sub (Fin i) (Fin d)) = Fin v"
  using taxableIncome_fin[of i d] assms small_le_max by simp

text \<open>
  Claim C6. The tax engine returns \<open>5000\<close> at \<open>(50000, 0)\<close>, \<open>15000\<close> at \<open>(100000, 0)\<close>
  and \<open>22500\<close> at \<open>(150000, 25000)\<close>; for the medium preset \<open>(75000, 12000)\<close> the tax
  is \<open>7600\<close> and the marginal rate of its taxable income is 20; for the high preset
  \<open>(150000, 25000)\<close> the tax is \<open>22500\<close> and the marginal rate is 30.
\<close>

theorem boundary_values:
  "calculateEstimatedTax (Fin 50000) (Fin 0) = Fin 5000
   \<and> calculateEstimatedTax (Fin 100000) (Fin 0) = Fin 15000
   \<and> calculateEstimatedTax (Fin 150000) (Fin 25000) = Fin 22500
   \<and> calculateEstimatedTax (income (scenarios medium)) (deductions (scenarios medium)) = Fin 7600
   \<and> getMarginalTaxRate (Math_max (lit 0)
         (num_sub (income (scenarios medium)) (deductions (scenarios medium)))) = ''20''
   \<and> calculateEstimatedTax (income (scenarios high)) (deductions (scenarios high)) = Fin 22500
   \<and> getMarginalTaxRate (Math_max (lit 0)
         (num_sub (income (scenarios high)) (deductions (scenarios high)))) = ''30''"
proof -
  have 1: "calculateEstimatedTax (Fin 50000) (Fin 0) = Fin 5000"
    using estimate_value[OF _ _ _ _ values_fin(1)] by simp
  have 2: "calculateEstimatedTax (Fin 100000) (Fin 0) = Fin 15000"
    using estimate_value[OF _ _ _ _ values_fin(2)] by simp
  have 3: "calculateEstimatedTax (Fin 150000) (Fin 25000) = Fin 22500"
    using estimate_value[OF _ _ _ _ values_fin(3)] by simp
  have 4: "calculateEstimatedTax (Fin 75000) (Fin 12000) = Fin 7600"
    using estimate_value[OF _ _ _ _ values_fin(4)] by simp
  have 5: "Math_max (lit 0) (num_sub (Fin 75000) (Fin 12000)) = Fin 63000"
    using taxable_value[OF _ _ _ _ taxable_values(1)] by simp
  have 6: "Math_max (lit 0) (num_sub (Fin 150000) (Fin 25000)) = Fin 125000"
    using taxable_value[OF _ _ _ _ taxable_values(2)] by simp
  have 7: "getMarginalTaxRate (Fin 63000) = ''20''" "getMarginalTaxRate (Fin 125000) = ''30''"
    by (simp_all add: getMarginalTaxRate_def lit_consts)
  show ?thesis by (simp add: 1 2 3 4 5 6 7)
qed

subsection \<open>Monotonicity of the tax owed\<close>

text \<open>
  Claim C7. For all finite non-negative Numbers, so for all non-negative integers the
  engine can be given: with the deductions fixed, the tax owed does not decrease as the
  income increases; with the income fixed, the tax owed does not increase as the
  deductions increase (in particular for deductions between \<open>0\<close> and the income).
  Both results are finite.
\<close>

theorem tax_monotone:
  "(0 \<le> i1 \<and> i1 \<le> i2 \<and> i2 \<le> max_double \<and> 0 \<le> d \<and> d \<le> max_double \<longrightarrow>
     (\<exists>a b. calculateEstimatedTax (Fin i1) (Fin d) = Fin a
          \<and> calculateEstimatedTax (Fin i2) (Fin d) = Fin b \<and> a \<le> b))
   \<and> (0 \<le> i \<and> i \<le> max_double \<and> 0 \<le> d1 \<and> d1 \<le> d2 \<and> d2 \<le> max_double \<longrightarrow>
     (\<exists>a b. calculateEstimatedTax (Fin i) (Fin d1) = Fin a
          \<and> calculateEstimatedTax (Fin i) (Fin d2) = Fin b \<and> b \<le> a))"
proof (intro conjI impI)
  assume h: "0 \<le> i1 \<and> i1 \<le> i2 \<and> i2 \<le> max_double \<and> 0 \<le> d \<and> d \<le> max_double"
  then have 1: "calculateEstimatedTax (Fin i1) (Fin d) = Fin (of_int (round (tax_fin (taxable_fin i1 d))))"
    and 2: "calculateEstimatedTax (Fin i2) (Fin d) = Fin (of_int (round (tax_fin (taxable_fin i2 d))))"
    by (auto intro!: calculateEstimatedTax_fin)
  have "tax_fin (taxable_fin i1 d) \<le> tax_fin (taxable_fin i2 d)"
    using h by (intro tax_fin_mono taxable_fin_mono) (simp_all add: taxable_fin_def)
  then have "round (tax_fin (taxable_fin i1 d)) \<le> round (tax_fin (taxable_fin i2 d))"
    by (rule round_mono)
  with 1 2 show "\<exists>a b. calculateEstimatedTax (Fin i1) (Fin d) = Fin a
        \<and> calculateEstimatedTax (Fin i2) (Fin d) = Fin b \<and> a \<le> b" by simp
next
  assume h: "0 \<le> i \<and> i \<le> max_double \<and> 0 \<le> d1 \<and> d1 \<le> d2 \<and> d2 \<le> max_double"
  then have 1: "calculateEstimatedTax (Fin i) (Fin d1) = Fin (of_int (round (tax_fin (taxable_fin i d1))))"
    and 2: "calculateEstimatedTax (Fin i) (Fin d2) = Fin (of_int (round (tax_fin (taxable_fin i d2))))"
    by (auto intro!: calculateEstimatedTax_fin)
  have "tax_fin (taxable_fin i d2) \<le> tax_fin (taxable_fin i d1)"
    using h by (intro tax_fin_mono taxable_fin_mono) (simp_all add: taxable_fin_def)
  then have "round (tax_fin (taxable_fin i d2)) \<le> round (tax_fin (taxable_fin i d1))"
    by (rule round_mono)
  with 1 2 show "\<exists>a b. calculateEstimatedTax (Fin i) (Fin d1) = Fin a
        \<and> calculateEstimatedTax (Fin i) (Fin d2) = Fin b \<and> b \<le> a" by simp
qed

lemma witness_values:
  "round (tax_fin (taxable_fin 60000 10000)) = 5000"
  "round (tax_fin (taxable_fin 120000 10000)) = 18000"
  "round (tax_fin (taxable_fin 120000 20000)) = 15000"
  by code_simp+

theorem tax_monotone_witness:
  "(0::rat) \<le> 60000 \<and> (60000::rat) \<le> 120000 \<and> 120000 \<le> max_double
   \<and> (0::rat) \<le> 10000 \<and> (10000::rat) \<le> 20000 \<and> 20000 \<le> max_double
   \<and> calculateEstimatedTax (Fin 60000) (Fin 10000) = Fin 5000
   \<and> calculateEstimatedTax (Fin 120000) (Fin 10000) = Fin 18000
   \<and> calculateEstimatedTax (Fin 120000) (Fin 20000) = Fin 15000
   \<and> (\<exists>a b. calculateEstimatedTax (Fin 60000) (Fin 10000) = Fin a
          \<and> calculateEstimatedTax (Fin 120000) (Fin 10000) = Fin b \<and> a \<le> b)
   \<and> (\<exists>a b. calculateEstimatedTax (Fin 120000) (Fin 10000) = Fin a
          \<and> calculateEstimatedTax (Fin 120000) (Fin 20000) = Fin b \<and> b \<le> a)"
proof -
  have b: "(120000::rat) \<le> max_double" "(20000::rat) \<le> max_double" "(10000::rat) \<le> max_double"
    by (rule small_le_max, simp)+
  have v: "calculateEstimatedTax (Fin 60000) (Fin 10000) = Fin 5000"
    "calculateEstimatedTax (Fin 120000) (Fin 10000) = Fin 18000"
    "calculateEstimatedTax (Fin 120000) (Fin 20000) = Fin 15000"
    using estimate_value[OF _ _ _ _ witness_values(1)] estimate_value[OF _ _ _ _ witness_values(2)]
      estimate_value[OF _ _ _ _ witness_values(3)] by simp_all
  from tax_monotone[of 60000 120000 10000 120000 10000 20000] b
  show ?thesis by (simp add: v)
qed

subsection \<open>Agreement of the two tax functions\<close>

text \<open>
  Claim C8. The two tax functions of the client agree: for all Numbers, so for all
  non-negative integers, \<open>calculateEstimatedTax(income, deductions)\<close> equals
  \<open>calculateProgressiveTax(Math.max(0, income - deductions))\<close>; the per-bracket terms
  of the latter, \<open>50000 * 0.10\<close> and \<open>50000 * 0.10 + 50000 * 0.20\<close>, evaluate to the
  constants \<open>5000\<close> and \<open>15000\<close> of the former.
\<close>

theorem estimate_agrees_with_progressive:
  "calculateEstimatedTax i d = calculateProgressiveTax (Math_max (lit 0) (num_sub i d))
   \<and> num_mul (lit 50000) (lit (10 / 100)) = lit 5000
   \<and> num_add (num_mul (lit 50000) (lit (10 / 100))) (num_mul (lit 50000) (lit (20 / 100))) = lit 15000"
  by (simp only: estimate_eq_progressive lit_consts folded_consts)

end
